theory Spec2Isabelle
  imports Main "HOL-Library.Sublist"
begin

section \<open>Text and the regular expressions of the two scripts\<close>

text \<open>
  A document is a \<^typ>\<open>string\<close>: one \<^typ>\<open>char\<close> per code point, code points below 256.
  \<open>isspace\<close> is what \<^verbatim>\<open>\s\<close> matches in a Python \<^verbatim>\<open>str\<close> pattern on that range:
  U+0009..U+000D, U+001C..U+0020, U+0085 and U+00A0.
\<close>

definition isspace :: "char \<Rightarrow> bool" where
  "isspace c =
     (let n = (of_char c :: nat)
      in (9 \<le> n \<and> n \<le> 13) \<or> (28 \<le> n \<and> n \<le> 32) \<or> n = 133 \<or> n = 160)"

text \<open>
  The character classes the two patterns use: \<^verbatim>\<open>\s\<close>, \<^verbatim>\<open>.\<close> under \<^verbatim>\<open>re.DOTALL\<close>
  and \<^verbatim>\<open>[^"]\<close>.
\<close>

datatype cls = Space | Any | NotQuote

fun in_cls :: "cls \<Rightarrow> char \<Rightarrow> bool" where
  "in_cls Space c = isspace c"
| "in_cls Any c = True"
| "in_cls NotQuote c = (c \<noteq> CHR 0x22)"

text \<open>
  A pattern is a sequence of items: a literal character, a greedy \<^verbatim>\<open>C*\<close> or \<^verbatim>\<open>C+\<close>,
  a lazy \<^verbatim>\<open>C*?\<close>, and the two parentheses of the capturing group.
\<close>

datatype item = Chr char | Star cls | Plus cls | Lazy cls | GOpen | GClose

definition lit :: "string \<Rightarrow> item list" where
  "lit s = map Chr s"

text \<open>
  The group is recorded as the text that was left when the matcher passed each
  parenthesis; \<open>group1\<close> is the text between the two.
\<close>

record caps =
  g_start :: string
  g_end :: string

definition no_caps :: caps where
  "no_caps = \<lparr>g_start = [], g_end = []\<rparr>"

definition group1 :: "caps \<Rightarrow> string" where
  "group1 cap = take (length (g_start cap) - length (g_end cap)) (g_start cap)"

text \<open>
  \<open>rx_match r s cap\<close> matches the pattern \<open>r\<close> at the start of \<open>s\<close> the way the
  backtracking matcher of \<^verbatim>\<open>re\<close> does: a greedy repetition takes as many characters
  as it can and gives them back one at a time, a lazy one takes as few as it can and
  adds one at a time; the first alternative that lets the rest of the pattern match
  wins. The result is the captures and the text after the match.
\<close>

fun rx_match :: "item list \<Rightarrow> string \<Rightarrow> caps \<Rightarrow> (caps \<times> string) option" where
  "rx_match [] s cap = Some (cap, s)"
| "rx_match (Chr c # r) [] cap = None"
| "rx_match (Chr c # r) (x # xs) cap = (if x = c then rx_match r xs cap else None)"
| "rx_match (Star C # r) [] cap = rx_match r [] cap"
| "rx_match (Star C # r) (x # xs) cap =
     (if in_cls C x
      then (case rx_match (Star C # r) xs cap of
              Some m \<Rightarrow> Some m
            | None \<Rightarrow> rx_match r (x # xs) cap)
      else rx_match r (x # xs) cap)"
| "rx_match (Plus C # r) [] cap = None"
| "rx_match (Plus C # r) (x # xs) cap =
     (if in_cls C x then rx_match (Star C # r) xs cap else None)"
| "rx_match (Lazy C # r) [] cap = rx_match r [] cap"
| "rx_match (Lazy C # r) (x # xs) cap =
     (case rx_match r (x # xs) cap of
        Some m \<Rightarrow> Some m
      | None \<Rightarrow> if in_cls C x then rx_match (Lazy C # r) xs cap else None)"
| "rx_match (GOpen # r) s cap = rx_match r s (cap\<lparr>g_start := s\<rparr>)"
| "rx_match (GClose # r) s cap = rx_match r s (cap\<lparr>g_end := s\<rparr>)"

text \<open>
  \<^verbatim>\<open>re.search\<close>: the leftmost position at which the pattern matches. The result is
  the text before the match (\<^verbatim>\<open>s[:m.start()]\<close>), the captures, and the text after it
  (\<^verbatim>\<open>s[m.end():]\<close>).
\<close>

fun re_search :: "item list \<Rightarrow> string \<Rightarrow> (string \<times> caps \<times> string) option" where
  "re_search r [] =
     (case rx_match r [] no_caps of
        Some (cap, rest) \<Rightarrow> Some ([], cap, rest)
      | None \<Rightarrow> None)"
| "re_search r (x # xs) =
     (case rx_match r (x # xs) no_caps of
        Some (cap, rest) \<Rightarrow> Some ([], cap, rest)
      | None \<Rightarrow>
          (case re_search r xs of
             None \<Rightarrow> None
           | Some (pre, cap, rest) \<Rightarrow> Some (x # pre, cap, rest)))"

text \<open>
  \<^verbatim>\<open>re.findall\<close> for a pattern with one group: the group of every match, scanning
  on from the end of each match. The pattern this program uses it with begins with a
  literal character, so a match is never empty and the scan resumes on a shorter text
  (\<open>mermaid_match_consumes\<close> below); the guard states this for the termination of
  the definition.
\<close>

fun re_findall :: "item list \<Rightarrow> string \<Rightarrow> string list" where
  "re_findall r s =
     (case re_search r s of
        None \<Rightarrow> []
      | Some (pre, cap, rest) \<Rightarrow>
          group1 cap # (if length rest < length s then re_findall r rest else []))"

section \<open>render\_diagrams.py\<close>

definition DIAGRAM_LABELS :: "string list" where
  "DIAGRAM_LABELS =
     [''system_overview'', ''data_ingestion'', ''solve_pipeline'', ''presolve_llm'',
      ''solver_engine'', ''postsolve_llm'', ''auto_runner'', ''contract_lifecycle'',
      ''decision_ledger'', ''whatif_analysis'', ''end_to_end'']"

text \<open>The pattern \<^verbatim>\<open><pre\s+class="mermaid">\s*(.*?)\s*</pre>\<close> with \<^verbatim>\<open>re.DOTALL\<close>.\<close>

definition mermaid_open_re :: "item list" where
  "mermaid_open_re = lit ''<pre'' @ [Plus Space] @ lit ''class=\"mermaid\">''"

definition mermaid_block_re :: "item list" where
  "mermaid_block_re =
     mermaid_open_re @ [Star Space, GOpen, Lazy Any, GClose, Star Space] @ lit ''</pre>''"

definition extract_mermaid_blocks :: "string \<Rightarrow> string list" where
  "extract_mermaid_blocks html = re_findall mermaid_block_re html"

definition build_single_diagram_html :: "string \<Rightarrow> string \<Rightarrow> string" where
  "build_single_diagram_html mermaid_code mermaid_js =
     ''<!DOCTYPE html>\<newline><html><head>\<newline><meta charset=\"UTF-8\">\<newline><script>'' @
     mermaid_js @
     ''</script>\<newline><style>\<newline>  body { margin: 0; padding: 24px; background: white; }\<newline>'' @
     ''  .mermaid { display: flex; justify-content: center; }\<newline></style>\<newline>'' @
     ''</head><body>\<newline><div class=\"mermaid\">\<newline>'' @
     mermaid_code @
     ''\<newline></div>\<newline><script>\<newline>mermaid.initialize({\<newline>  startOnLoad: true,\<newline>'' @
     ''  theme: 'base',\<newline>  themeVariables: {\<newline>    primaryColor: '#ebf5fb',\<newline>'' @
     ''    primaryBorderColor: '#2e86de',\<newline>    primaryTextColor: '#0b1d3a',\<newline>'' @
     ''    lineColor: '#5a6c7d',\<newline>    secondaryColor: '#fef9e7',\<newline>'' @
     ''    tertiaryColor: '#eafaf1',\<newline>    fontSize: '14px'\<newline>  },\<newline>'' @
     ''  flowchart: { htmlLabels: true, curve: 'basis', padding: 16 }\<newline>});\<newline>'' @
     ''</script>\<newline></body></html>''"

text \<open>\<^verbatim>\<open>str(n)\<close> and \<^verbatim>\<open>f"{n:02d}"\<close> for a natural number.\<close>

fun str_nat :: "nat \<Rightarrow> string" where
  "str_nat n =
     (if n < 10 then [''0123456789'' ! n]
      else str_nat (n div 10) @ [''0123456789'' ! (n mod 10)])"

definition fmt_02d :: "nat \<Rightarrow> string" where
  "fmt_02d n = replicate (2 - length (str_nat n)) (CHR ''0'') @ str_nat n"

definition label_for :: "string list \<Rightarrow> nat \<Rightarrow> string" where
  "label_for labels i =
     (if i < length labels then labels ! i else ''diagram_'' @ str_nat (i + 1))"

definition tmp_name :: "nat \<Rightarrow> string" where
  "tmp_name i = ''_tmp_diagram_'' @ str_nat i @ ''.html''"

definition out_name :: "string list \<Rightarrow> nat \<Rightarrow> string" where
  "out_name labels i = fmt_02d (i + 1) @ ''_'' @ label_for labels i @ ''.png''"

section \<open>Files, errors and the browser\<close>

text \<open>
  A path is a directory of the program and a file name in it. \<open>SCRIPT_DIR\<close> is the
  directory of the scripts, \<open>IMG_DIR\<close> is \<^verbatim>\<open>SCRIPT_DIR / "diagram_images"\<close> and
  \<open>MERMAID_DIST\<close> is \<^verbatim>\<open>PROJECT_ROOT / "node_modules" / "mermaid" / "dist"\<close>.
  File names contain no separator, so two paths are the same file only when they are
  equal. The file system maps a path to the content of the file there, one character per
  code point, line ends as they are in the file. Directories are not
  modelled: \<^verbatim>\<open>IMG_DIR.mkdir(exist_ok=True)\<close> changes no file. Console output is not
  modelled either.
\<close>

datatype dir = SCRIPT_DIR | IMG_DIR | MERMAID_DIST

type_synonym path = "dir \<times> string"

type_synonym fs = "path \<rightharpoonup> string"

definition HTML_PATH :: path where
  "HTML_PATH = (SCRIPT_DIR, ''process_flows.html'')"

definition PDF_PATH :: path where
  "PDF_PATH = (SCRIPT_DIR, ''process_flows.pdf'')"

definition MERMAID_JS :: path where
  "MERMAID_JS = (MERMAID_DIST, ''mermaid.min.js'')"

datatype error =
    FileNotFoundError path
  | LaunchError
  | NavigationError
  | TimeoutError string
  | AttributeError
  | CaptureError

text \<open>
  \<^verbatim>\<open>Path.read_text()\<close> opens the file in text mode, with universal newlines: a carriage
  return followed by a line feed, and every other carriage return, is read as one line
  feed. A file that is not there raises.
\<close>

fun universal_newlines :: "string \<Rightarrow> string" where
  "universal_newlines [] = []"
| "universal_newlines [c] = [if c = CHR 0x0D then CHR 0x0A else c]"
| "universal_newlines (c # d # cs) =
     (if c = CHR 0x0D
      then (if d = CHR 0x0A
            then CHR 0x0A # universal_newlines cs
            else CHR 0x0A # universal_newlines (d # cs))
      else c # universal_newlines (d # cs))"

definition read_text :: "fs \<Rightarrow> path \<Rightarrow> error + string" where
  "read_text files p =
     (case files p of
        None \<Rightarrow> Inl (FileNotFoundError p)
      | Some t \<Rightarrow> Inr (universal_newlines t))"

text \<open>
  \<^verbatim>\<open>Path.write_text(t)\<close>: the scripts run on Linux (the browser they launch is
  \<^verbatim>\<open>chrome-linux/chrome\<close>), where a line feed is written as a line feed; the file holds
  the text as it is.
\<close>

definition write_text :: "fs \<Rightarrow> path \<Rightarrow> string \<Rightarrow> fs" where
  "write_text files p t = files(p \<mapsto> t)"

text \<open>\<^verbatim>\<open>p.unlink(missing_ok=True)\<close>\<close>

definition unlink :: "fs \<Rightarrow> path \<Rightarrow> fs" where
  "unlink files p = files(p := None)"

text \<open>
  What the headless browser does is not code of this program; it is a parameter.
  An element is what its screenshot gives: the bytes of the image, or nothing when
  the capture raises. A container is an element of class \<^verbatim>\<open>mermaid\<close>: whether its
  attribute \<^verbatim>\<open>data-processed\<close> is \<^verbatim>\<open>"true"\<close>, its first \<^verbatim>\<open>svg\<close> descendant if any, and
  the container as an element. A DOM is the containers of the page in document order.
  A page is what a load of a file gives: whether the navigation ends within its
  timeout, the DOM seen at each poll of \<^verbatim>\<open>wait_for_function\<close> until its timeout, the
  DOM after the settle delay, and the bytes \<^verbatim>\<open>page.pdf\<close> would print.
\<close>

datatype element = Element (capture: "string option")

record container =
  processed :: bool
  svg :: "element option"
  self :: element

type_synonym dom = "container list"

record page =
  nav_ok :: bool
  polls :: "dom list"
  settled :: dom
  pdf_bytes :: string

record browser =
  launch_ok :: bool
  load :: "path \<Rightarrow> string \<Rightarrow> page"

text \<open>
  The completion predicate of the per-diagram job:
  \<^verbatim>\<open>d = document.querySelector('.mermaid');
  return d && (d.getAttribute('data-processed') === 'true' || d.querySelector('svg'))\<close>
\<close>

definition diagram_ready :: "dom \<Rightarrow> bool" where
  "diagram_ready ds =
     (case ds of [] \<Rightarrow> False | d # _ \<Rightarrow> processed d \<or> svg d \<noteq> None)"

text \<open>
  The completion predicate of the document export:
  \<^verbatim>\<open>diagrams = document.querySelectorAll('.mermaid');
  return diagrams.length > 0 && Array.from(diagrams).every(d =>
    d.getAttribute('data-processed') === 'true' || d.querySelector('svg') !== null)\<close>
\<close>

definition document_ready :: "dom \<Rightarrow> bool" where
  "document_ready ds =
     (length ds > 0 \<and> list_all (\<lambda>d. processed d \<or> svg d \<noteq> None) ds)"

text \<open>
  \<^verbatim>\<open>page.wait_for_function(pred, timeout=...)\<close>: returns when a poll sees the predicate
  true, raises \<^verbatim>\<open>TimeoutError\<close> when no poll within the timeout does.
\<close>

definition wait_for_function :: "(dom \<Rightarrow> bool) \<Rightarrow> page \<Rightarrow> error + unit" where
  "wait_for_function pred pg =
     (if list_ex pred (polls pg) then Inr () else Inl (TimeoutError ''wait_for_function''))"

text \<open>
  \<^verbatim>\<open>page.goto(tmp.resolve().as_uri(), ...)\<close>: the browser loads the file that is on
  disk at the path.
\<close>

definition goto :: "browser \<Rightarrow> fs \<Rightarrow> path \<Rightarrow> error + page" where
  "goto br files p =
     (case files p of
        None \<Rightarrow> Inl NavigationError
      | Some t \<Rightarrow>
          (let pg = load br p t
           in if nav_ok pg then Inr pg else Inl (TimeoutError ''goto'')))"

text \<open>\<^verbatim>\<open>page.query_selector(".mermaid svg")\<close> and \<^verbatim>\<open>page.query_selector(".mermaid")\<close>\<close>

definition query_selector_mermaid_svg :: "dom \<Rightarrow> element option" where
  "query_selector_mermaid_svg ds =
     (case List.map_filter svg ds of [] \<Rightarrow> None | e # _ \<Rightarrow> Some e)"

definition query_selector_mermaid :: "dom \<Rightarrow> element option" where
  "query_selector_mermaid ds = (case ds of [] \<Rightarrow> None | d # _ \<Rightarrow> Some (self d))"

text \<open>\<^verbatim>\<open>el.screenshot(path=p)\<close> on what \<^verbatim>\<open>query_selector\<close> returned.\<close>

definition screenshot :: "element option \<Rightarrow> fs \<Rightarrow> path \<Rightarrow> error + fs" where
  "screenshot el files p =
     (case el of
        None \<Rightarrow> Inl AttributeError
      | Some e \<Rightarrow>
          (case capture e of
             None \<Rightarrow> Inl CaptureError
           | Some png \<Rightarrow> Inr (write_text files p png)))"

section \<open>render\_diagrams.py: the job of one diagram and the batch\<close>

text \<open>
  The body of the loop of \<^verbatim>\<open>main\<close> for the block \<open>code\<close> at position \<open>i\<close>.
  The result is the file system the body leaves and either the exception that left
  it or nothing.
\<close>

definition render_job ::
  "browser \<Rightarrow> string \<Rightarrow> string list \<Rightarrow> nat \<Rightarrow> string \<Rightarrow> fs \<Rightarrow> fs \<times> (error + unit)" where
  "render_job br mermaid_js labels i code files =
     (let diagram_html = build_single_diagram_html code mermaid_js;
          tmp = (SCRIPT_DIR, tmp_name i);
          files1 = write_text files tmp diagram_html
      in case goto br files1 tmp of
           Inl e \<Rightarrow> (files1, Inl e)
         | Inr pg \<Rightarrow>
             (case wait_for_function diagram_ready pg of
                Inl e \<Rightarrow> (files1, Inl e)
              | Inr _ \<Rightarrow>
                  (let mermaid_el =
                         (case query_selector_mermaid_svg (settled pg) of
                            None \<Rightarrow> query_selector_mermaid (settled pg)
                          | Some e \<Rightarrow> Some e);
                       out_path = (IMG_DIR, out_name labels i)
                   in case screenshot mermaid_el files1 out_path of
                        Inl e \<Rightarrow> (files1, Inl e)
                      | Inr files2 \<Rightarrow> (unlink files2 tmp, Inr ()))))"

text \<open>\<^verbatim>\<open>for i, code in enumerate(blocks)\<close>, from position \<open>i\<close> on.\<close>

fun render_loop ::
  "browser \<Rightarrow> string \<Rightarrow> string list \<Rightarrow> nat \<Rightarrow> string list \<Rightarrow> fs \<Rightarrow> fs \<times> (error + unit)" where
  "render_loop br mermaid_js labels i [] files = (files, Inr ())"
| "render_loop br mermaid_js labels i (code # blocks) files =
     (case render_job br mermaid_js labels i code files of
        (files', Inl e) \<Rightarrow> (files', Inl e)
      | (files', Inr _) \<Rightarrow> render_loop br mermaid_js labels (Suc i) blocks files')"

text \<open>\<^verbatim>\<open>main\<close> of render\_diagrams.py, for a label table; the program's table is \<open>DIAGRAM_LABELS\<close>.\<close>

definition render_main_with :: "string list \<Rightarrow> browser \<Rightarrow> fs \<Rightarrow> fs \<times> (error + unit)" where
  "render_main_with labels br files =
     (case read_text files HTML_PATH of
        Inl e \<Rightarrow> (files, Inl e)
      | Inr html \<Rightarrow>
          (case read_text files MERMAID_JS of
             Inl e \<Rightarrow> (files, Inl e)
           | Inr mermaid_js \<Rightarrow>
               (let blocks = extract_mermaid_blocks html
                in if launch_ok br
                   then render_loop br mermaid_js labels 0 blocks files
                   else (files, Inl LaunchError))))"

definition render_main :: "browser \<Rightarrow> fs \<Rightarrow> fs \<times> (error + unit)" where
  "render_main br files = render_main_with DIAGRAM_LABELS br files"

section \<open>generate\_pdf.py\<close>

text \<open>
  The pattern
  \<^verbatim>\<open><script\s+src="https://cdn\.jsdelivr\.net/npm/mermaid@[^"]*"></script>\<close>.
\<close>

definition cdn_open_re :: "item list" where
  "cdn_open_re =
     lit ''<script'' @ [Plus Space] @ lit ''src=\"https://cdn.jsdelivr.net/npm/mermaid@''"

definition cdn_script_re :: "item list" where
  "cdn_script_re = cdn_open_re @ [Star NotQuote] @ lit ''\"></script>''"

text \<open>Lines 28 to 33 of \<^verbatim>\<open>build_offline_html\<close>: the text that is written.\<close>

definition offline_text :: "string \<Rightarrow> string \<Rightarrow> string" where
  "offline_text html mermaid_code =
     (case re_search cdn_script_re html of
        Some (before, cap, after) \<Rightarrow> before @ ''<script>'' @ mermaid_code @ ''</script>'' @ after
      | None \<Rightarrow> html)"

definition OFFLINE_TMP :: path where
  "OFFLINE_TMP = (SCRIPT_DIR, ''_process_flows_offline.html'')"

definition build_offline_html :: "fs \<Rightarrow> fs \<times> (error + path)" where
  "build_offline_html files =
     (case read_text files HTML_PATH of
        Inl e \<Rightarrow> (files, Inl e)
      | Inr html \<Rightarrow>
          (case read_text files MERMAID_JS of
             Inl e \<Rightarrow> (files, Inl e)
           | Inr mermaid_code \<Rightarrow>
               (write_text files OFFLINE_TMP (offline_text html mermaid_code), Inr OFFLINE_TMP)))"

text \<open>The body of the \<^verbatim>\<open>try\<close> of \<^verbatim>\<open>main\<close>.\<close>

definition pdf_try :: "browser \<Rightarrow> path \<Rightarrow> fs \<Rightarrow> fs \<times> (error + unit)" where
  "pdf_try br tmp_html files =
     (if launch_ok br
      then (case goto br files tmp_html of
              Inl e \<Rightarrow> (files, Inl e)
            | Inr pg \<Rightarrow>
                (case wait_for_function document_ready pg of
                   Inl e \<Rightarrow> (files, Inl e)
                 | Inr _ \<Rightarrow> (write_text files PDF_PATH (pdf_bytes pg), Inr ())))
      else (files, Inl LaunchError))"

text \<open>\<^verbatim>\<open>main\<close> of generate\_pdf.py: the \<^verbatim>\<open>finally\<close> runs on every way out of the \<^verbatim>\<open>try\<close>.\<close>

definition pdf_main :: "browser \<Rightarrow> fs \<Rightarrow> fs \<times> (error + unit)" where
  "pdf_main br files =
     (case build_offline_html files of
        (files0, Inl e) \<Rightarrow> (files0, Inl e)
      | (files1, Inr tmp_html) \<Rightarrow>
          (case pdf_try br tmp_html files1 of
             (files2, r) \<Rightarrow> (unlink files2 tmp_html, r)))"

section \<open>Vocabulary of the statements\<close>

text \<open>
  The texts the two patterns describe, written without the matcher: a run of
  whitespace, the opening tag of a diagram block, a diagram block, a document made of
  blocks and the text around them, and the script tag of the rendering engine.
\<close>

definition spaces :: "string \<Rightarrow> bool" where
  "spaces w = (w \<noteq> [] \<and> list_all isspace w)"

definition mermaid_open :: "string \<Rightarrow> string" where
  "mermaid_open w = ''<pre'' @ w @ ''class=\"mermaid\">''"

definition diagram_block :: "string \<Rightarrow> string \<Rightarrow> string" where
  "diagram_block w c = mermaid_open w @ c @ ''</pre>''"

definition has_mermaid_open :: "string \<Rightarrow> bool" where
  "has_mermaid_open s = (\<exists>a w b. spaces w \<and> s = a @ mermaid_open w @ b)"

text \<open>
  \<open>document bs tail\<close>: for each entry of \<open>bs\<close> the text before the block, the
  whitespace inside its opening tag and its content; \<open>tail\<close> is the text after the
  last block.
\<close>

fun document :: "(string \<times> string \<times> string) list \<Rightarrow> string \<Rightarrow> string" where
  "document [] tail = tail"
| "document ((f, w, c) # bs) tail = f @ diagram_block w c @ document bs tail"

text \<open>\<^verbatim>\<open>str.strip()\<close>: the text without its leading and trailing whitespace.\<close>

definition strip :: "string \<Rightarrow> string" where
  "strip s = rev (dropWhile isspace (rev (dropWhile isspace s)))"

text \<open>
  The decimal numeral of \<open>n\<close> on two digits: with a leading zero when it has one
  digit.
\<close>

definition two_digits :: "nat \<Rightarrow> string" where
  "two_digits n = (if n < 10 then CHR ''0'' # str_nat n else str_nat n)"

text \<open>
  The name of the output file of the diagram at position \<open>i\<close> as the specification
  words it: the ordinal \<open>i + 1\<close> on two digits, an underscore, then the entry \<open>i\<close> of
  the label table when there is one and \<^verbatim>\<open>diagram_\<close> with the ordinal otherwise.
\<close>

definition spec_out_name :: "string list \<Rightarrow> nat \<Rightarrow> string" where
  "spec_out_name labels i =
     two_digits (i + 1) @ ''_'' @
     (if i < length labels then labels ! i else ''diagram_'' @ str_nat (i + 1)) @ ''.png''"

definition cdn_open :: "string \<Rightarrow> string" where
  "cdn_open w = ''<script'' @ w @ ''src=\"https://cdn.jsdelivr.net/npm/mermaid@''"

definition cdn_tag :: "string \<Rightarrow> string \<Rightarrow> string" where
  "cdn_tag w v = cdn_open w @ v @ ''\"></script>''"

definition has_cdn_open :: "string \<Rightarrow> bool" where
  "has_cdn_open s = (\<exists>a w b. spaces w \<and> s = a @ cdn_open w @ b)"

definition has_cdn_tag :: "string \<Rightarrow> bool" where
  "has_cdn_tag s =
     (\<exists>a w v b. spaces w \<and> CHR 0x22 \<notin> set v \<and> s = a @ cdn_tag w v @ b)"

section \<open>Example inputs\<close>

text \<open>
  A container the engine has rendered and one it has not; a page on which the diagram
  is rendered at the second poll and a page on which it never is; a browser that
  renders every page and one that does not render the first diagram of a batch; a disk
  with a source document and the engine asset.
\<close>

definition rendered :: container where
  "rendered = \<lparr>processed = True, svg = Some (Element (Some ''SVG-PNG'')), self = Element (Some ''BOX-PNG'')\<rparr>"

definition pending :: container where
  "pending = \<lparr>processed = False, svg = None, self = Element (Some ''BOX-PNG'')\<rparr>"

definition good_page :: page where
  "good_page = \<lparr>nav_ok = True, polls = [[pending], [rendered]], settled = [rendered], pdf_bytes = ''PDF''\<rparr>"

definition stuck_page :: page where
  "stuck_page = \<lparr>nav_ok = True, polls = [[pending], [pending]], settled = [pending], pdf_bytes = ''PDF''\<rparr>"

definition empty_page :: page where
  "empty_page = \<lparr>nav_ok = True, polls = [[], []], settled = [], pdf_bytes = ''PDF''\<rparr>"

definition good_browser :: browser where
  "good_browser = \<lparr>launch_ok = True, load = (\<lambda>p t. good_page)\<rparr>"

definition first_stuck_browser :: browser where
  "first_stuck_browser =
     \<lparr>launch_ok = True,
      load = (\<lambda>p t. if p = (SCRIPT_DIR, ''_tmp_diagram_0.html'') then stuck_page else good_page)\<rparr>"

definition empty_browser :: browser where
  "empty_browser = \<lparr>launch_ok = True, load = (\<lambda>p t. empty_page)\<rparr>"

definition disk :: "string \<Rightarrow> fs" where
  "disk html = [HTML_PATH \<mapsto> html, MERMAID_JS \<mapsto> ''JS'']"

definition disk_with :: "string \<Rightarrow> string \<Rightarrow> fs" where
  "disk_with html asset = [HTML_PATH \<mapsto> html, MERMAID_JS \<mapsto> asset]"

text \<open>An asset and two documents whose files hold carriage returns.\<close>

definition crlf_asset :: string where
  "crlf_asset = ''a'' @ [CHR 0x0D, CHR 0x0A] @ ''b''"

definition crlf_document :: string where
  "crlf_document = ''x'' @ [CHR 0x0D, CHR 0x0A] @ ''y'' @ [CHR 0x0D] @ ''z''"

definition two_tags_crlf :: string where
  "two_tags_crlf =
     ''<script src=\"https://cdn.jsdelivr.net/npm/mermaid@10\"></script><p/>'' @
     [CHR 0x0D, CHR 0x0A] @ ''<script'' @ [CHR 0x0D, CHR 0x0A] @
     ''src=\"https://cdn.jsdelivr.net/npm/mermaid@11\"></script>''"

definition two_diagrams :: string where
  "two_diagrams = ''<pre class=\"mermaid\">A</pre><pre class=\"mermaid\">B</pre>''"

definition three_diagrams :: string where
  "three_diagrams =
     ''<h1>T</h1><pre class=\"mermaid\">A</pre><pre class=\"mermaid\">\<newline>B\<newline></pre><p/><pre  class=\"mermaid\"> C </pre>''"

definition two_tags :: string where
  "two_tags =
     ''<script src=\"https://cdn.jsdelivr.net/npm/mermaid@10\"></script><p/>'' @
     ''<script src=\"https://cdn.jsdelivr.net/npm/mermaid@11\"></script>''"

definition one_tag :: string where
  "one_tag = ''<head><script src=\"https://cdn.jsdelivr.net/npm/mermaid@10\"></script></head>''"

declare re_findall.simps [simp del]

declare str_nat.simps [simp del]

section \<open>The matcher on literals, repetitions and searches\<close>

lemma lit_Cons: "lit (c # l) = Chr c # lit l"
  by (simp add: lit_def)

lemma rx_match_lit:
  "rx_match (lit l @ r) s cap = (if prefix l s then rx_match r (drop (length l) s) cap else None)"
proof (induction l arbitrary: s)
  case Nil
  then show ?case by (simp add: lit_def)
next
  case (Cons a l)
  show ?case
  proof (cases s)
    case Nil
    then show ?thesis by (simp add: lit_def)
  next
    case (Cons x xs)
    have "rx_match (lit (a # l) @ r) (x # xs) cap = (if x = a then rx_match (lit l @ r) xs cap else None)"
      by (simp add: lit_def)
    then show ?thesis using Cons.IH[of xs] Cons by auto
  qed
qed

lemma rx_match_lit_app: "rx_match (lit l @ r) (l @ s) cap = rx_match r s cap"
  by (simp add: rx_match_lit)

lemma rx_star_chr:
  "\<not> in_cls C c \<Longrightarrow>
   rx_match (Star C # Chr c # r) s cap = rx_match (Chr c # r) (dropWhile (in_cls C) s) cap"
  by (induction s) (auto split: option.splits)

lemma rx_star_first:
  "rx_match r (dropWhile (in_cls C) s) cap = Some m \<Longrightarrow> rx_match (Star C # r) s cap = Some m"
proof (induction s)
  case Nil
  then show ?case by simp
next
  case (Cons a s)
  show ?case
  proof (cases "in_cls C a")
    case True
    with Cons have "rx_match (Star C # r) s cap = Some m" by simp
    with True show ?thesis by simp
  next
    case False
    with Cons.prems show ?thesis by simp
  qed
qed

lemma rx_open_complete:
  assumes "\<not> in_cls C c" "w \<noteq> []" "list_all (in_cls C) w"
  shows "rx_match (lit l1 @ Plus C # lit (c # l2) @ r) (l1 @ w @ (c # l2) @ s) cap = rx_match r s cap"
proof -
  obtain x xs where w: "w = x # xs" using assms(2) by (cases w) auto
  have dw: "dropWhile (in_cls C) (xs @ (c # l2) @ s) = (c # l2) @ s"
    using assms(1,3) w by (simp add: dropWhile_append list_all_iff)
  have "rx_match (lit l1 @ Plus C # lit (c # l2) @ r) (l1 @ w @ (c # l2) @ s) cap
        = rx_match (Plus C # lit (c # l2) @ r) (w @ (c # l2) @ s) cap"
    by (rule rx_match_lit_app)
  also have "\<dots> = rx_match (Star C # Chr c # lit l2 @ r) (xs @ (c # l2) @ s) cap"
    using assms(3) w by (simp add: lit_Cons)
  also have "\<dots> = rx_match (Chr c # lit l2 @ r) ((c # l2) @ s) cap"
    using rx_star_chr[OF assms(1)] dw by simp
  also have "\<dots> = rx_match r s cap"
    using rx_match_lit_app[of "c # l2" r s cap] by (simp add: lit_Cons)
  finally show ?thesis .
qed

lemma rx_open_sound:
  assumes "\<not> in_cls C c" "rx_match (lit l1 @ Plus C # lit (c # l2) @ r) s cap = Some m"
  shows "\<exists>w s'. s = l1 @ w @ (c # l2) @ s' \<and> w \<noteq> [] \<and> list_all (in_cls C) w \<and> rx_match r s' cap = Some m"
proof -
  from assms(2) have p1: "prefix l1 s"
    and m1: "rx_match (Plus C # lit (c # l2) @ r) (drop (length l1) s) cap = Some m"
    by (auto simp: rx_match_lit split: if_splits)
  from p1 obtain s1 where s: "s = l1 @ s1" by (auto simp: prefix_def)
  with m1 have m1': "rx_match (Plus C # lit (c # l2) @ r) s1 cap = Some m" by simp
  then obtain x xs where s1: "s1 = x # xs" by (cases s1) auto
  with m1' have cx: "in_cls C x"
    and m2: "rx_match (Star C # Chr c # lit l2 @ r) xs cap = Some m"
    by (auto simp: lit_Cons split: if_splits)
  from m2 have m3: "rx_match (lit (c # l2) @ r) (dropWhile (in_cls C) xs) cap = Some m"
    using rx_star_chr[OF assms(1)] by (simp add: lit_Cons)
  then have p2: "prefix (c # l2) (dropWhile (in_cls C) xs)"
    and m4: "rx_match r (drop (length (c # l2)) (dropWhile (in_cls C) xs)) cap = Some m"
    by (auto simp: rx_match_lit split: if_splits)
  from p2 obtain s' where d: "dropWhile (in_cls C) xs = (c # l2) @ s'" by (auto simp: prefix_def)
  have xs: "xs = takeWhile (in_cls C) xs @ (c # l2) @ s'"
    using takeWhile_dropWhile_id[of "in_cls C" xs] d by simp
  let ?w = "x # takeWhile (in_cls C) xs"
  have "s = l1 @ ?w @ (c # l2) @ s'" using s s1 xs by simp
  moreover have "list_all (in_cls C) ?w" using cx by (auto simp: list_all_iff dest: set_takeWhileD)
  moreover have "rx_match r s' cap = Some m" using m4 d by simp
  ultimately show ?thesis by blast
qed

lemma straddle:
  assumes "t @ (a # u) = P @ s'" "t \<noteq> []" "a \<notin> set (tl P)"
  shows "\<exists>s''. t = P @ s''"
proof -
  from assms(1) obtain us where
    "(t = P @ us \<and> us @ a # u = s') \<or> (t @ us = P \<and> a # u = us @ s')"
    by (auto simp: append_eq_append_conv2)
  then show ?thesis
  proof
    assume "t = P @ us \<and> us @ a # u = s'"
    then show ?thesis by blast
  next
    assume h: "t @ us = P \<and> a # u = us @ s'"
    show ?thesis
    proof (cases us)
      case Nil
      with h show ?thesis by auto
    next
      case (Cons b us')
      with h have "b = a" by simp
      with h Cons have "P = t @ a # us'" by simp
      with assms(2) have "a \<in> set (tl P)" by (cases t) auto
      with assms(3) show ?thesis by contradiction
    qed
  qed
qed

lemma re_search_None_iff:
  "re_search r s = None \<longleftrightarrow> (\<forall>t. suffix t s \<longrightarrow> rx_match r t no_caps = None)"
proof (induction s)
  case Nil
  then show ?case by (auto split: option.splits)
next
  case (Cons x xs)
  show ?case using Cons.IH by (auto simp: suffix_Cons split: option.splits)
qed

lemma re_search_skip:
  assumes "\<And>t. t \<noteq> [] \<Longrightarrow> suffix t f \<Longrightarrow> rx_match r (t @ s) no_caps = None"
    and "rx_match r s no_caps = Some (cap, rest)"
  shows "re_search r (f @ s) = Some (f, cap, rest)"
  using assms(1)
proof (induction f)
  case Nil
  from assms(2) show ?case by (cases s) simp_all
next
  case (Cons x f)
  have "rx_match r ((x # f) @ s) no_caps = None" using Cons.prems[of "x # f"] by simp
  moreover have "re_search r (f @ s) = Some (f, cap, rest)"
    using Cons.IH Cons.prems by (simp add: suffix_Cons)
  ultimately show ?case by simp
qed

lemma re_search_Some:
  assumes "re_search r s = Some (pre, cap, rest)"
  shows "\<exists>t. s = pre @ t \<and> rx_match r t no_caps = Some (cap, rest)
             \<and> (\<forall>u. u \<noteq> [] \<and> suffix u pre \<longrightarrow> rx_match r (u @ t) no_caps = None)"
  using assms
proof (induction s arbitrary: pre)
  case Nil
  then show ?case by (auto split: option.splits)
next
  case (Cons x xs)
  show ?case
  proof (cases "rx_match r (x # xs) no_caps")
    case (Some m)
    with Cons.prems show ?thesis by auto
  next
    case None
    with Cons.prems obtain pre' where s: "re_search r xs = Some (pre', cap, rest)" and p: "pre = x # pre'"
      by (auto split: option.splits)
    from Cons.IH[OF s] obtain t where t: "xs = pre' @ t" "rx_match r t no_caps = Some (cap, rest)"
      and n: "\<forall>u. u \<noteq> [] \<and> suffix u pre' \<longrightarrow> rx_match r (u @ t) no_caps = None" by blast
    have "rx_match r (u @ t) no_caps = None" if "u \<noteq> []" "suffix u pre" for u
    proof (cases "u = pre")
      case True
      with None p t show ?thesis by simp
    next
      case False
      with that p have "suffix u pre'" by (auto simp: suffix_Cons)
      with n that show ?thesis by blast
    qed
    with t p show ?thesis by auto
  qed
qed

text \<open>A match leaves a suffix of the text.\<close>

lemma rx_match_suffix:
  "rx_match r s cap = Some (cap', rest) \<Longrightarrow> suffix rest s"
proof (induction r s cap arbitrary: cap' rest rule: rx_match.induct)
  case (1 s cap)
  then show ?case by simp
next
  case (2 c r cap)
  then show ?case by simp
next
  case (3 c r x xs cap)
  then show ?case by (auto simp: suffix_Cons split: if_splits)
next
  case (4 C r cap)
  then show ?case by simp
next
  case (5 C r x xs cap)
  then show ?case by (auto simp: suffix_Cons split: if_splits option.splits)
next
  case (6 C r cap)
  then show ?case by simp
next
  case (7 C r x xs cap)
  then show ?case by (auto simp: suffix_Cons split: if_splits)
next
  case (8 C r cap)
  then show ?case by simp
next
  case (9 C r x xs cap)
  then show ?case by (auto simp: suffix_Cons split: if_splits option.splits)
next
  case (10 r s cap)
  then show ?case by simp
next
  case (11 r s cap)
  then show ?case by simp
qed

section \<open>The pattern of a diagram block\<close>

lemma not_space_lt [simp]: "\<not> isspace (CHR ''<'')"
  by (simp add: isspace_def)

lemma not_space_c [simp]: "\<not> isspace (CHR ''c'')"
  by (simp add: isspace_def)

lemma not_space_s [simp]: "\<not> isspace (CHR ''s'')"
  by (simp add: isspace_def)

lemma not_space_quote [simp]: "\<not> isspace (CHR 0x22)"
  by (simp add: isspace_def)

lemma in_cls_Space: "in_cls Space = isspace"
  by (rule ext) simp

lemma mermaid_open_re_eq:
  "mermaid_open_re @ r = lit ''<pre'' @ Plus Space # lit ''class=\"mermaid\">'' @ r"
  by (simp add: mermaid_open_re_def)

lemma mermaid_open_complete:
  "spaces w \<Longrightarrow> rx_match (mermaid_open_re @ r) (mermaid_open w @ s) cap = rx_match r s cap"
  unfolding mermaid_open_re_eq mermaid_open_def spaces_def
  using rx_open_complete[of Space "CHR ''c''" w "''<pre''" "''lass=\"mermaid\">''" r s cap]
  by (simp add: in_cls_Space)

lemma mermaid_open_sound:
  assumes "rx_match (mermaid_open_re @ r) s cap = Some m"
  shows "\<exists>w s'. spaces w \<and> s = mermaid_open w @ s' \<and> rx_match r s' cap = Some m"
proof -
  have "rx_match (lit ''<pre'' @ Plus Space # lit (CHR ''c'' # ''lass=\"mermaid\">'') @ r) s cap = Some m"
    using assms unfolding mermaid_open_re_eq by simp
  from rx_open_sound[OF _ this] show ?thesis
    unfolding mermaid_open_def spaces_def by (auto simp: in_cls_Space)
qed

lemma has_mermaid_open_iff:
  "has_mermaid_open s \<longleftrightarrow> re_search mermaid_open_re s \<noteq> None"
proof
  assume "has_mermaid_open s"
  then obtain a w b where w: "spaces w" and s: "s = a @ mermaid_open w @ b"
    unfolding has_mermaid_open_def by blast
  have "rx_match mermaid_open_re (mermaid_open w @ b) no_caps = Some (no_caps, b)"
    using mermaid_open_complete[OF w, of "[]" b no_caps] by simp
  moreover have "suffix (mermaid_open w @ b) s" using s by (simp add: suffix_def)
  ultimately show "re_search mermaid_open_re s \<noteq> None"
    using re_search_None_iff[of mermaid_open_re s] by auto
next
  assume "re_search mermaid_open_re s \<noteq> None"
  then obtain t m where t: "suffix t s" and m: "rx_match (mermaid_open_re @ []) t no_caps = Some m"
    using re_search_None_iff[of mermaid_open_re s] by auto
  from mermaid_open_sound[OF m] obtain w s' where "spaces w" "t = mermaid_open w @ s'" by blast
  with t show "has_mermaid_open s" unfolding has_mermaid_open_def suffix_def by blast
qed

lemma mermaid_open_tl: "spaces w \<Longrightarrow> CHR ''<'' \<notin> set (tl (mermaid_open w))"
  by (auto simp: mermaid_open_def spaces_def list_all_iff)

text \<open>
  No match of the block pattern starts inside a text without an opening tag, when
  what follows is empty or starts with \<^verbatim>\<open><\<close>.
\<close>

lemma mermaid_no_match_in_filler:
  assumes "\<not> has_mermaid_open f" "suffix t f" "t \<noteq> []" "b = [] \<or> hd b = CHR ''<''"
  shows "rx_match (mermaid_open_re @ r) (t @ b) cap = None"
proof (rule ccontr)
  assume "rx_match (mermaid_open_re @ r) (t @ b) cap \<noteq> None"
  then obtain m where "rx_match (mermaid_open_re @ r) (t @ b) cap = Some m" by auto
  from mermaid_open_sound[OF this] obtain w s' where
    w: "spaces w" and eq: "t @ b = mermaid_open w @ s'" by blast
  have "\<exists>s''. t = mermaid_open w @ s''"
  proof (cases b)
    case Nil
    with eq show ?thesis by auto
  next
    case (Cons a u)
    with assms(4) have "a = CHR ''<''" by simp
    with eq Cons have "t @ (CHR ''<'' # u) = mermaid_open w @ s'" by simp
    from straddle[OF this assms(3) mermaid_open_tl[OF w]] show ?thesis .
  qed
  then obtain s'' where "t = mermaid_open w @ s''" by blast
  with assms(2) w have "has_mermaid_open f"
    unfolding has_mermaid_open_def suffix_def by auto
  with assms(1) show False by contradiction
qed

lemma close_not_prefix:
  assumes "\<not> sublist ''</pre>'' c" "suffix u c" "u \<noteq> []"
  shows "\<not> prefix ''</pre>'' (u @ ''</pre>'' @ rest)"
proof
  assume "prefix ''</pre>'' (u @ ''</pre>'' @ rest)"
  then obtain s' where "u @ (CHR ''<'' # ''/pre>'' @ rest) = ''</pre>'' @ s'"
    by (auto simp: prefix_def)
  from straddle[OF this assms(3)] obtain s'' where "u = ''</pre>'' @ s''" by auto
  with assms(2) have "sublist ''</pre>'' c"
    unfolding sublist_def suffix_def by (metis append.assoc)
  with assms(1) show False by contradiction
qed

lemma tail_match:
  "rx_match (GClose # Star Space # lit ''</pre>'') s cap =
     (if prefix ''</pre>'' (dropWhile isspace s)
      then Some (cap\<lparr>g_end := s\<rparr>, drop (length ''</pre>'') (dropWhile isspace s)) else None)"
proof -
  have "rx_match (GClose # Star Space # lit ''</pre>'') s cap
        = rx_match (Star Space # Chr (CHR ''<'') # lit ''/pre>'') s (cap\<lparr>g_end := s\<rparr>)"
    by (simp add: lit_Cons)
  also have "\<dots> = rx_match (Chr (CHR ''<'') # lit ''/pre>'') (dropWhile isspace s) (cap\<lparr>g_end := s\<rparr>)"
    by (subst rx_star_chr) (simp_all add: in_cls_Space)
  also have "\<dots> = rx_match (lit ''</pre>'' @ []) (dropWhile isspace s) (cap\<lparr>g_end := s\<rparr>)"
    by (simp add: lit_Cons)
  also have "\<dots> = (if prefix ''</pre>'' (dropWhile isspace s)
      then Some (cap\<lparr>g_end := s\<rparr>, drop (length ''</pre>'') (dropWhile isspace s)) else None)"
    unfolding rx_match_lit by simp
  finally show ?thesis .
qed

lemma lazy_scan:
  assumes "\<not> sublist ''</pre>'' t"
  shows "rx_match (Lazy Any # GClose # Star Space # lit ''</pre>'') (t @ ''</pre>'' @ rest) cap =
         Some (cap\<lparr>g_end := rev (takeWhile isspace (rev t)) @ ''</pre>'' @ rest\<rparr>, rest)"
  using assms
proof (induction t)
  case Nil
  show ?case by (simp add: tail_match del: rx_match.simps(11))
next
  case (Cons x xs)
  have nsub: "\<not> sublist ''</pre>'' xs" using Cons.prems by (auto simp: sublist_Cons_right)
  note IH = Cons.IH[OF nsub]
  show ?case
  proof (cases "list_all isspace (x # xs)")
    case True
    then have dw: "dropWhile isspace ((x # xs) @ ''</pre>'' @ rest) = ''</pre>'' @ rest"
      by (simp add: dropWhile_append list_all_iff)
    have tw: "takeWhile isspace (rev (x # xs)) = rev (x # xs)"
      using True by (simp add: list_all_iff takeWhile_eq_all_conv)
    have "rx_match (GClose # Star Space # lit ''</pre>'') ((x # xs) @ ''</pre>'' @ rest) cap
          = Some (cap\<lparr>g_end := (x # xs) @ ''</pre>'' @ rest\<rparr>, rest)"
      unfolding tail_match dw by simp
    then show ?thesis unfolding tw by simp
  next
    case False
    then have ex: "\<not> (\<forall>y\<in>set (x # xs). isspace y)" by (simp add: list_all_iff)
    then have dw: "dropWhile isspace ((x # xs) @ ''</pre>'' @ rest)
                   = dropWhile isspace (x # xs) @ ''</pre>'' @ rest"
      by (simp only: dropWhile_append if_False)
    have ne: "dropWhile isspace (x # xs) \<noteq> []" using ex by (simp add: dropWhile_eq_Nil_conv)
    have suf: "suffix (dropWhile isspace (x # xs)) (x # xs)" by (rule suffix_dropWhile)
    have np: "\<not> prefix ''</pre>'' (dropWhile isspace ((x # xs) @ ''</pre>'' @ rest))"
      unfolding dw using close_not_prefix[OF Cons.prems suf ne] .
    have none: "rx_match (GClose # Star Space # lit ''</pre>'') (x # xs @ ''</pre>'' @ rest) cap = None"
      using np unfolding tail_match by simp
    have tw: "takeWhile isspace (rev (x # xs)) = takeWhile isspace (rev xs)"
    proof (cases "\<forall>y\<in>set xs. isspace y")
      case True
      with ex have nx: "takeWhile isspace [x] = []" by simp
      have a: "takeWhile isspace (rev xs) = rev xs"
        using True by (simp add: takeWhile_eq_all_conv)
      have b: "takeWhile isspace (rev xs @ [x]) = rev xs @ takeWhile isspace [x]"
        using True by (intro takeWhile_append2) simp
      show ?thesis unfolding rev.simps b nx a by simp
    next
      case False
      then obtain y where "y \<in> set (rev xs)" "\<not> isspace y" by auto
      then show ?thesis
        using takeWhile_append1[of y "rev xs" isspace "[x]"] by simp
    qed
    have "rx_match (Lazy Any # GClose # Star Space # lit ''</pre>'') (x # xs @ ''</pre>'' @ rest) cap
          = rx_match (Lazy Any # GClose # Star Space # lit ''</pre>'') (xs @ ''</pre>'' @ rest) cap"
      using none by (simp del: rx_match.simps(11))
    then show ?thesis using IH tw by simp
  qed
qed


lemma dropWhile_content:
  "dropWhile isspace (c @ ''</pre>'' @ rest) = dropWhile isspace c @ ''</pre>'' @ rest"
  by (simp add: dropWhile_append dropWhile_eq_Nil_conv)

lemma take_rstrip:
  "take (length t - length (rev (takeWhile P (rev t)))) t = rev (dropWhile P (rev t))"
proof -
  have t: "t = rev (dropWhile P (rev t)) @ rev (takeWhile P (rev t))"
    by (metis rev_append rev_rev_ident takeWhile_dropWhile_id)
  have "length t - length (rev (takeWhile P (rev t))) = length (rev (dropWhile P (rev t)))"
    by (subst t) (simp del: length_rev rev_rev_ident)
  then show ?thesis using t by (metis append_eq_conv_conj)
qed

lemma block_match:
  assumes "spaces w" "\<not> sublist ''</pre>'' c"
  shows "\<exists>cap. rx_match mermaid_block_re (diagram_block w c @ rest) no_caps = Some (cap, rest)
           \<and> group1 cap = strip c"
proof -
  let ?c0 = "dropWhile isspace c"
  let ?tr = "rev (takeWhile isspace (rev ?c0))"
  let ?cap = "no_caps\<lparr>g_start := ?c0 @ ''</pre>'' @ rest, g_end := ?tr @ ''</pre>'' @ rest\<rparr>"
  have "suffix ?c0 c" by (rule suffix_dropWhile)
  then have ns: "\<not> sublist ''</pre>'' ?c0"
    using assms(2) by (meson sublist_order.order_trans suffix_imp_sublist)
  have inner: "rx_match ([GOpen, Lazy Any, GClose, Star Space] @ lit ''</pre>'')
                 (dropWhile (in_cls Space) (c @ ''</pre>'' @ rest)) no_caps = Some (?cap, rest)"
    unfolding in_cls_Space dropWhile_content
    using lazy_scan[OF ns, of rest "no_caps\<lparr>g_start := ?c0 @ ''</pre>'' @ rest\<rparr>"]
    by simp
  have "rx_match mermaid_block_re (diagram_block w c @ rest) no_caps
        = rx_match ([Star Space, GOpen, Lazy Any, GClose, Star Space] @ lit ''</pre>'')
            (c @ ''</pre>'' @ rest) no_caps"
    unfolding mermaid_block_re_def diagram_block_def
    using mermaid_open_complete[OF assms(1)] by simp
  also have "\<dots> = Some (?cap, rest)"
    using rx_star_first[OF inner] by simp
  finally have m: "rx_match mermaid_block_re (diagram_block w c @ rest) no_caps = Some (?cap, rest)" .
  have "group1 ?cap = strip c"
    using take_rstrip[of ?c0 isspace] by (simp add: group1_def strip_def)
  with m show ?thesis by blast
qed

lemma mermaid_search_None:
  assumes "\<not> has_mermaid_open s"
  shows "re_search (mermaid_open_re @ r) s = None"
proof -
  have "rx_match (mermaid_open_re @ r) t no_caps = None" if "suffix t s" for t
  proof (cases t)
    case Nil
    then show ?thesis by (simp add: mermaid_open_re_def lit_Cons)
  next
    case (Cons a u)
    then have "t \<noteq> []" by simp
    from mermaid_no_match_in_filler[OF assms that this, of "[]" r no_caps] show ?thesis by simp
  qed
  then show ?thesis by (simp add: re_search_None_iff)
qed

lemma diagram_block_hd: "hd (diagram_block w c @ rest) = CHR ''<''"
  by (simp add: diagram_block_def mermaid_open_def)

lemma search_block:
  assumes "\<not> has_mermaid_open f" "spaces w" "\<not> sublist ''</pre>'' c"
  shows "\<exists>cap. re_search mermaid_block_re (f @ diagram_block w c @ rest) = Some (f, cap, rest)
           \<and> group1 cap = strip c"
proof -
  from block_match[OF assms(2,3), of rest] obtain cap where
    m: "rx_match mermaid_block_re (diagram_block w c @ rest) no_caps = Some (cap, rest)"
    and g: "group1 cap = strip c" by blast
  have "rx_match mermaid_block_re (t @ diagram_block w c @ rest) no_caps = None"
    if "t \<noteq> []" "suffix t f" for t
    unfolding mermaid_block_re_def
    using mermaid_no_match_in_filler[OF assms(1) that(2,1), of "diagram_block w c @ rest"]
    by (simp add: diagram_block_hd)
  from re_search_skip[of f mermaid_block_re, OF this m] g show ?thesis by blast
qed

lemma extract_document:
  assumes "\<forall>(f, w, c) \<in> set bs. \<not> has_mermaid_open f \<and> spaces w \<and> \<not> sublist ''</pre>'' c"
    and "\<not> has_mermaid_open tail"
  shows "extract_mermaid_blocks (document bs tail) = map (\<lambda>(f, w, c). strip c) bs"
  using assms(1)
proof (induction bs)
  case Nil
  have "re_search mermaid_block_re tail = None"
    unfolding mermaid_block_re_def by (rule mermaid_search_None[OF assms(2)])
  then show ?case by (simp add: extract_mermaid_blocks_def re_findall.simps)
next
  case (Cons b bs)
  obtain f w c where b: "b = (f, w, c)" by (cases b) auto
  from Cons.prems b have h: "\<not> has_mermaid_open f" "spaces w" "\<not> sublist ''</pre>'' c" by auto
  from Cons.prems have IH: "extract_mermaid_blocks (document bs tail) = map (\<lambda>(f, w, c). strip c) bs"
    by (intro Cons.IH) auto
  from search_block[OF h, of "document bs tail"] obtain cap where
    s: "re_search mermaid_block_re (f @ diagram_block w c @ document bs tail) = Some (f, cap, document bs tail)"
    and g: "group1 cap = strip c" by blast
  have len: "length (document bs tail) < length (f @ diagram_block w c @ document bs tail)"
    by (simp add: diagram_block_def mermaid_open_def)
  have "re_findall mermaid_block_re (f @ diagram_block w c @ document bs tail)
        = strip c # re_findall mermaid_block_re (document bs tail)"
    by (subst re_findall.simps) (simp add: s g len del: length_append)
  with IH b show ?case by (simp add: extract_mermaid_blocks_def)
qed

text \<open>
  A match of the block pattern is never empty, so the guard in \<open>re_findall\<close> never
  ends a scan: extraction goes on after every match.
\<close>

lemma mermaid_match_consumes:
  assumes "re_search mermaid_block_re s = Some (pre, cap, rest)"
  shows "length rest < length s"
proof -
  from re_search_Some[OF assms] obtain t where s: "s = pre @ t"
    and m: "rx_match mermaid_block_re t no_caps = Some (cap, rest)" by blast
  from m have "rx_match (mermaid_open_re @ [Star Space, GOpen, Lazy Any, GClose, Star Space] @ lit ''</pre>'')
                 t no_caps = Some (cap, rest)"
    by (simp add: mermaid_block_re_def)
  from mermaid_open_sound[OF this] obtain w s' where t: "t = mermaid_open w @ s'"
    and m': "rx_match ([Star Space, GOpen, Lazy Any, GClose, Star Space] @ lit ''</pre>'') s' no_caps
             = Some (cap, rest)" by blast
  from rx_match_suffix[OF m'] have "length rest \<le> length s'" by (rule suffix_length_le)
  with s t show ?thesis by (simp add: mermaid_open_def)
qed

lemma extract_unfold:
  "extract_mermaid_blocks s =
     (case re_search mermaid_block_re s of
        None \<Rightarrow> []
      | Some (pre, cap, rest) \<Rightarrow> group1 cap # extract_mermaid_blocks rest)"
  unfolding extract_mermaid_blocks_def
  by (subst re_findall.simps) (auto split: option.splits dest: mermaid_match_consumes)

section \<open>The pattern of the script tag of the rendering engine\<close>

lemma cdn_open_re_eq:
  "cdn_open_re @ r = lit ''<script'' @ Plus Space # lit ''src=\"https://cdn.jsdelivr.net/npm/mermaid@'' @ r"
  by (simp add: cdn_open_re_def)

lemma cdn_open_complete:
  "spaces w \<Longrightarrow> rx_match (cdn_open_re @ r) (cdn_open w @ s) cap = rx_match r s cap"
  unfolding cdn_open_re_eq cdn_open_def spaces_def
  using rx_open_complete[of Space "CHR ''s''" w "''<script''" "''rc=\"https://cdn.jsdelivr.net/npm/mermaid@''" r s cap]
  by (simp add: in_cls_Space)

lemma cdn_open_sound:
  assumes "rx_match (cdn_open_re @ r) s cap = Some m"
  shows "\<exists>w s'. spaces w \<and> s = cdn_open w @ s' \<and> rx_match r s' cap = Some m"
proof -
  have "rx_match (lit ''<script'' @ Plus Space #
          lit (CHR ''s'' # ''rc=\"https://cdn.jsdelivr.net/npm/mermaid@'') @ r) s cap = Some m"
    using assms unfolding cdn_open_re_eq by simp
  from rx_open_sound[OF _ this] show ?thesis
    unfolding cdn_open_def spaces_def by (auto simp: in_cls_Space)
qed

lemma in_cls_NotQuote: "in_cls NotQuote = (\<lambda>c. c \<noteq> CHR 0x22)"
  by (rule ext) simp

lemma cdn_close:
  "rx_match (Star NotQuote # lit ''\"></script>'') s cap =
     (if prefix ''\"></script>'' (dropWhile (\<lambda>c. c \<noteq> CHR 0x22) s)
      then Some (cap, drop (length ''\"></script>'') (dropWhile (\<lambda>c. c \<noteq> CHR 0x22) s))
      else None)"
proof -
  have "rx_match (Star NotQuote # lit ''\"></script>'') s cap
        = rx_match (Star NotQuote # Chr (CHR 0x22) # lit ''></script>'') s cap"
    by (simp add: lit_Cons)
  also have "\<dots> = rx_match (Chr (CHR 0x22) # lit ''></script>'') (dropWhile (in_cls NotQuote) s) cap"
    by (subst rx_star_chr) simp_all
  also have "\<dots> = rx_match (lit ''\"></script>'' @ []) (dropWhile (\<lambda>c. c \<noteq> CHR 0x22) s) cap"
    by (simp add: lit_Cons in_cls_NotQuote)
  also have "\<dots> = (if prefix ''\"></script>'' (dropWhile (\<lambda>c. c \<noteq> CHR 0x22) s)
      then Some (cap, drop (length ''\"></script>'') (dropWhile (\<lambda>c. c \<noteq> CHR 0x22) s))
      else None)"
    unfolding rx_match_lit by simp
  finally show ?thesis .
qed

lemma dropWhile_nq:
  "CHR 0x22 \<notin> set v \<Longrightarrow> dropWhile (\<lambda>c. c \<noteq> CHR 0x22) (v @ CHR 0x22 # s) = CHR 0x22 # s"
  by (induction v) auto

lemma cdn_tag_complete:
  assumes "spaces w" "CHR 0x22 \<notin> set v"
  shows "rx_match cdn_script_re (cdn_tag w v @ s) cap = Some (cap, s)"
proof -
  have "rx_match cdn_script_re (cdn_tag w v @ s) cap
        = rx_match (Star NotQuote # lit ''\"></script>'') (v @ ''\"></script>'' @ s) cap"
    unfolding cdn_script_re_def cdn_tag_def using cdn_open_complete[OF assms(1)] by simp
  also have "\<dots> = Some (cap, s)"
    unfolding cdn_close using dropWhile_nq[OF assms(2), of "''></script>'' @ s"] by simp
  finally show ?thesis .
qed

lemma cdn_tag_sound:
  assumes "rx_match cdn_script_re s cap = Some m"
  shows "\<exists>w v s'. spaces w \<and> CHR 0x22 \<notin> set v \<and> s = cdn_tag w v @ s' \<and> m = (cap, s')"
proof -
  have "rx_match (cdn_open_re @ Star NotQuote # lit ''\"></script>'') s cap = Some m"
    using assms by (simp add: cdn_script_re_def)
  from cdn_open_sound[OF this] obtain w s1 where w: "spaces w" and s: "s = cdn_open w @ s1"
    and m: "rx_match (Star NotQuote # lit ''\"></script>'') s1 cap = Some m" by blast
  let ?d = "dropWhile (\<lambda>c. c \<noteq> CHR 0x22) s1"
  let ?v = "takeWhile (\<lambda>c. c \<noteq> CHR 0x22) s1"
  from m have p: "prefix ''\"></script>'' ?d" and m': "m = (cap, drop (length ''\"></script>'') ?d)"
    unfolding cdn_close by (auto split: if_splits)
  from p obtain s' where d: "?d = ''\"></script>'' @ s'" by (auto simp: prefix_def)
  have "s1 = ?v @ ?d" by simp
  then have s1: "s1 = ?v @ ''\"></script>'' @ s'" using d by simp
  have nq: "CHR 0x22 \<notin> set ?v" by (auto dest: set_takeWhileD)
  have "s = cdn_tag w ?v @ s'" using s s1 by (simp add: cdn_tag_def)
  moreover have "m = (cap, s')" using m' d by simp
  ultimately show ?thesis using w nq by blast
qed

lemma has_cdn_tag_iff: "has_cdn_tag s \<longleftrightarrow> re_search cdn_script_re s \<noteq> None"
proof
  assume "has_cdn_tag s"
  then obtain a w v b where h: "spaces w" "CHR 0x22 \<notin> set v" and s: "s = a @ cdn_tag w v @ b"
    unfolding has_cdn_tag_def by blast
  have "rx_match cdn_script_re (cdn_tag w v @ b) no_caps = Some (no_caps, b)"
    using cdn_tag_complete[OF h] .
  moreover have "suffix (cdn_tag w v @ b) s" using s by (simp add: suffix_def)
  ultimately show "re_search cdn_script_re s \<noteq> None"
    using re_search_None_iff[of cdn_script_re s] by auto
next
  assume "re_search cdn_script_re s \<noteq> None"
  then obtain t m where t: "suffix t s" and m: "rx_match cdn_script_re t no_caps = Some m"
    using re_search_None_iff[of cdn_script_re s] by auto
  from cdn_tag_sound[OF m] obtain w v s' where
    "spaces w" "CHR 0x22 \<notin> set v" "t = cdn_tag w v @ s'" by blast
  with t show "has_cdn_tag s" unfolding has_cdn_tag_def suffix_def by blast
qed

lemma has_cdn_open_iff: "has_cdn_open s \<longleftrightarrow> re_search cdn_open_re s \<noteq> None"
proof
  assume "has_cdn_open s"
  then obtain a w b where w: "spaces w" and s: "s = a @ cdn_open w @ b"
    unfolding has_cdn_open_def by blast
  have "rx_match cdn_open_re (cdn_open w @ b) no_caps = Some (no_caps, b)"
    using cdn_open_complete[OF w, of "[]" b no_caps] by simp
  moreover have "suffix (cdn_open w @ b) s" using s by (simp add: suffix_def)
  ultimately show "re_search cdn_open_re s \<noteq> None"
    using re_search_None_iff[of cdn_open_re s] by auto
next
  assume "re_search cdn_open_re s \<noteq> None"
  then obtain t m where t: "suffix t s" and m: "rx_match (cdn_open_re @ []) t no_caps = Some m"
    using re_search_None_iff[of cdn_open_re s] by auto
  from cdn_open_sound[OF m] obtain w s' where "spaces w" "t = cdn_open w @ s'" by blast
  with t show "has_cdn_open s" unfolding has_cdn_open_def suffix_def by blast
qed

lemma offline_text_no_tag: "\<not> has_cdn_tag html \<Longrightarrow> offline_text html js = html"
proof -
  assume "\<not> has_cdn_tag html"
  then have "re_search cdn_script_re html = None"
    unfolding has_cdn_tag_iff by blast
  then show ?thesis by (simp add: offline_text_def)
qed


lemma cdn_open_tl: "spaces w \<Longrightarrow> CHR ''<'' \<notin> set (tl (cdn_open w))"
  by (auto simp: cdn_open_def spaces_def list_all_iff)

lemma spaces_no_quote: "spaces w \<Longrightarrow> CHR 0x22 \<notin> set w"
  by (auto simp: spaces_def list_all_iff)

lemma cdn_tag_Cons: "cdn_tag w v @ s = CHR ''<'' # ''script'' @ w @ ''src=\"https://cdn.jsdelivr.net/npm/mermaid@'' @ v @ ''\"></script>'' @ s"
  by (simp add: cdn_tag_def cdn_open_def)

text \<open>
  A text \<open>d\<close> that begins with a quote and is followed by a script tag: when the
  closing literal begins the whole, it lies inside \<open>d\<close>.
\<close>

lemma close_inside:
  assumes "d @ (CHR ''<'' # CHR ''s'' # X) = ''\"></script>'' @ s'" "d \<noteq> []"
  shows "\<exists>s5. d = ''\"></script>'' @ s5"
proof -
  from assms obtain d1 where d: "d = CHR 0x22 # d1" by (cases d) auto
  with assms(1) have e1: "d1 @ (CHR ''<'' # CHR ''s'' # X) = ''></script>'' @ s'" by simp
  then obtain d2 where d1: "d1 = CHR ''>'' # d2" by (cases d1) auto
  with e1 have e2: "d2 @ (CHR ''<'' # CHR ''s'' # X) = ''</script>'' @ s'" by simp
  then obtain d3 where d2: "d2 = CHR ''<'' # d3" by (cases d2) auto
  with e2 have e3: "d3 @ (CHR ''<'' # CHR ''s'' # X) = ''/script>'' @ s'" by simp
  then have "d3 \<noteq> []" by auto
  from straddle[OF e3 this] obtain s5 where "d3 = ''/script>'' @ s5" by auto
  with d d1 d2 show ?thesis by simp
qed

lemma cdn_no_match_before:
  assumes "\<not> has_cdn_tag pre" "suffix t pre" "t \<noteq> []" "spaces w1" "CHR 0x22 \<notin> set v1"
  shows "rx_match cdn_script_re (t @ cdn_tag w1 v1 @ rest) cap = None"
proof (rule ccontr)
  let ?nq = "\<lambda>c. c \<noteq> CHR 0x22"
  let ?Y = "cdn_tag w1 v1 @ rest"
  assume "rx_match cdn_script_re (t @ ?Y) cap \<noteq> None"
  then obtain m where "rx_match cdn_script_re (t @ ?Y) cap = Some m" by auto
  from cdn_tag_sound[OF this] obtain w v s' where w: "spaces w" and v: "CHR 0x22 \<notin> set v"
    and eq: "t @ ?Y = cdn_tag w v @ s'" by blast
  obtain X where Y: "?Y = CHR ''<'' # CHR ''s'' # X" by (simp add: cdn_tag_Cons)
  have "t @ (CHR ''<'' # CHR ''s'' # X) = cdn_open w @ (v @ ''\"></script>'' @ s')"
    using eq Y by (simp add: cdn_tag_def)
  from straddle[OF this assms(3) cdn_open_tl[OF w]] obtain s2 where t: "t = cdn_open w @ s2" by blast
  with eq have eq2: "s2 @ ?Y = v @ ''\"></script>'' @ s'" by (simp add: cdn_tag_def)
  have dr: "dropWhile ?nq (s2 @ ?Y) = ''\"></script>'' @ s'"
    unfolding eq2 using dropWhile_nq[OF v, of "''></script>'' @ s'"] by simp
  show False
  proof (cases "CHR 0x22 \<in> set s2")
    case True
    then have dl: "dropWhile ?nq (s2 @ ?Y) = dropWhile ?nq s2 @ ?Y"
      by (auto simp: dropWhile_append)
    have ne: "dropWhile ?nq s2 \<noteq> []" using True by (auto simp: dropWhile_eq_Nil_conv)
    have "dropWhile ?nq s2 @ (CHR ''<'' # CHR ''s'' # X) = ''\"></script>'' @ s'"
      using dl dr Y by simp
    from close_inside[OF this ne] obtain s5 where d: "dropWhile ?nq s2 = ''\"></script>'' @ s5" by blast
    have "s2 = takeWhile ?nq s2 @ dropWhile ?nq s2" by simp
    then have "s2 = takeWhile ?nq s2 @ ''\"></script>'' @ s5" using d by simp
    then have "t = cdn_tag w (takeWhile ?nq s2) @ s5" using t by (simp add: cdn_tag_def)
    moreover have "CHR 0x22 \<notin> set (takeWhile ?nq s2)" by (auto dest: set_takeWhileD)
    ultimately have "has_cdn_tag pre"
      using assms(2) w unfolding has_cdn_tag_def suffix_def by (metis append.assoc)
    with assms(1) show False by contradiction
  next
    case False
    then have dl: "dropWhile ?nq (s2 @ ?Y) = dropWhile ?nq ?Y"
      by (auto simp: dropWhile_append)
    have "?Y = (''<script'' @ w1 @ ''src='') @ CHR 0x22 # (''https://cdn.jsdelivr.net/npm/mermaid@'' @ v1 @ ''\"></script>'' @ rest)"
      by (simp add: cdn_tag_def cdn_open_def)
    moreover have "CHR 0x22 \<notin> set (''<script'' @ w1 @ ''src='')"
      using spaces_no_quote[OF assms(4)] by simp
    ultimately have "dropWhile ?nq ?Y = CHR 0x22 # (''https://cdn.jsdelivr.net/npm/mermaid@'' @ v1 @ ''\"></script>'' @ rest)"
      using dropWhile_nq by metis
    with dl dr show False by simp
  qed
qed

lemma search_first_tag:
  assumes "\<not> has_cdn_tag pre" "spaces w" "CHR 0x22 \<notin> set v"
  shows "re_search cdn_script_re (pre @ cdn_tag w v @ rest) = Some (pre, no_caps, rest)"
proof -
  have "rx_match cdn_script_re (t @ cdn_tag w v @ rest) no_caps = None"
    if "t \<noteq> []" "suffix t pre" for t
    using cdn_no_match_before[OF assms(1) that(2,1) assms(2,3)] .
  from re_search_skip[of pre cdn_script_re, OF this cdn_tag_complete[OF assms(2,3)]]
  show ?thesis .
qed

lemma offline_text_first_tag:
  assumes "\<not> has_cdn_tag pre" "spaces w" "CHR 0x22 \<notin> set v"
  shows "offline_text (pre @ cdn_tag w v @ rest) js = pre @ ''<script>'' @ js @ ''</script>'' @ rest"
  unfolding offline_text_def search_first_tag[OF assms] by simp


text \<open>Texts without the opening of a script tag of the engine.\<close>

lemma cdn_open_re_lits:
  "cdn_open_re = lit ''<script'' @ Plus Space # lit ''src=\"https://cdn.jsdelivr.net/npm/mermaid@''"
  by (simp add: cdn_open_re_def)

lemma cdn_open_search_None:
  "\<not> has_cdn_open s \<longleftrightarrow> (\<forall>t. suffix t s \<longrightarrow> rx_match cdn_open_re t no_caps = None)"
  by (metis has_cdn_open_iff re_search_None_iff)

lemma cdn_open_match_hd:
  assumes "rx_match cdn_open_re t no_caps \<noteq> None"
  shows "\<exists>u. t = CHR ''<'' # u"
proof -
  from assms obtain m where "rx_match (cdn_open_re @ []) t no_caps = Some m" by auto
  from cdn_open_sound[OF this] show ?thesis by (auto simp: cdn_open_def)
qed

lemma no_open_append:
  assumes "\<not> has_cdn_open a" "\<not> has_cdn_open b" "b = [] \<or> hd b = CHR ''<''"
  shows "\<not> has_cdn_open (a @ b)"
proof
  assume "has_cdn_open (a @ b)"
  then obtain x w y where w: "spaces w" and eq: "a @ b = x @ cdn_open w @ y"
    unfolding has_cdn_open_def by blast
  from eq obtain us where
    "(a = x @ us \<and> us @ b = cdn_open w @ y) \<or> (a @ us = x \<and> b = us @ cdn_open w @ y)"
    by (auto simp: append_eq_append_conv2)
  then show False
  proof
    assume h: "a = x @ us \<and> us @ b = cdn_open w @ y"
    show False
    proof (cases "us = []")
      case True
      with h w assms(2) show False unfolding has_cdn_open_def by (metis append_Nil)
    next
      case False
      have "\<exists>s''. us = cdn_open w @ s''"
      proof (cases b)
        case Nil
        with h show ?thesis by auto
      next
        case (Cons c u)
        with assms(3) have "c = CHR ''<''" by simp
        with h Cons have "us @ (CHR ''<'' # u) = cdn_open w @ y" by simp
        from straddle[OF this False cdn_open_tl[OF w]] show ?thesis .
      qed
      then obtain s'' where "us = cdn_open w @ s''" by blast
      with h w assms(1) show False unfolding has_cdn_open_def by (metis append.assoc)
    qed
  next
    assume "a @ us = x \<and> b = us @ cdn_open w @ y"
    with w assms(2) show False unfolding has_cdn_open_def by blast
  qed
qed

lemma no_open_Cons:
  assumes "\<not> has_cdn_open b" "rx_match cdn_open_re (c # b) no_caps = None"
  shows "\<not> has_cdn_open (c # b)"
  using assms unfolding cdn_open_search_None by (auto simp: suffix_Cons)

lemma no_open_Cons_other:
  assumes "\<not> has_cdn_open b" "c \<noteq> CHR ''<''"
  shows "\<not> has_cdn_open (c # b)"
proof (rule no_open_Cons[OF assms(1)])
  show "rx_match cdn_open_re (c # b) no_caps = None"
  proof (rule ccontr)
    assume "rx_match cdn_open_re (c # b) no_caps \<noteq> None"
    from cdn_open_match_hd[OF this] assms(2) show False by simp
  qed
qed

lemma no_open_close_script: "\<not> has_cdn_open b \<Longrightarrow> \<not> has_cdn_open (''</script>'' @ b)"
proof -
  assume b: "\<not> has_cdn_open b"
  have "\<not> has_cdn_open (''/script>'' @ b)"
    using b by (simp add: no_open_Cons_other)
  moreover have "rx_match cdn_open_re (''</script>'' @ b) no_caps = None"
    by (subst cdn_open_re_lits) (simp add: rx_match_lit)
  ultimately show ?thesis using no_open_Cons[of "''/script>'' @ b" "CHR ''<''"] by simp
qed

lemma no_open_open_script: "\<not> has_cdn_open b \<Longrightarrow> \<not> has_cdn_open (''<script>'' @ b)"
proof -
  assume b: "\<not> has_cdn_open b"
  have "\<not> has_cdn_open (''script>'' @ b)"
    using b by (simp add: no_open_Cons_other)
  moreover have "rx_match cdn_open_re (''<script>'' @ b) no_caps = None"
    by (subst cdn_open_re_lits) (simp add: rx_match_lit isspace_def)
  ultimately show ?thesis using no_open_Cons[of "''script>'' @ b" "CHR ''<''"] by simp
qed

lemma no_open_inlined:
  assumes "\<not> has_cdn_open pre" "\<not> has_cdn_open js" "\<not> has_cdn_open post"
  shows "\<not> has_cdn_open (pre @ ''<script>'' @ js @ ''</script>'' @ post)"
proof -
  have 1: "\<not> has_cdn_open (''</script>'' @ post)" using assms(3) by (rule no_open_close_script)
  have 2: "\<not> has_cdn_open (js @ ''</script>'' @ post)"
    using no_open_append[OF assms(2) 1] by simp
  have 3: "\<not> has_cdn_open (''<script>'' @ js @ ''</script>'' @ post)"
    using no_open_open_script[OF 2] by simp
  show ?thesis using no_open_append[OF assms(1) 3] by simp
qed

lemma has_cdn_tag_open: "has_cdn_tag s \<Longrightarrow> has_cdn_open s"
  unfolding has_cdn_tag_def has_cdn_open_def cdn_tag_def by (metis append.assoc)

section \<open>The offline bundler\<close>

lemma universal_newlines_no_cr: "CHR 0x0D \<notin> set s \<Longrightarrow> universal_newlines s = s"
  by (induction s rule: universal_newlines.induct) auto

lemma build_offline_html_eq:
  assumes "read_text files HTML_PATH = Inr html" "read_text files MERMAID_JS = Inr js"
  shows "build_offline_html files = (files(OFFLINE_TMP \<mapsto> offline_text html js), Inr OFFLINE_TMP)"
  using assms by (simp add: build_offline_html_def write_text_def)

lemma paths_distinct:
  "HTML_PATH \<noteq> OFFLINE_TMP" "MERMAID_JS \<noteq> OFFLINE_TMP" "PDF_PATH \<noteq> OFFLINE_TMP"
  "HTML_PATH \<noteq> MERMAID_JS" "HTML_PATH \<noteq> PDF_PATH" "MERMAID_JS \<noteq> PDF_PATH"
  by (simp_all add: HTML_PATH_def OFFLINE_TMP_def MERMAID_JS_def PDF_PATH_def)

lemma disk_simps:
  "disk html HTML_PATH = Some html" "disk html MERMAID_JS = Some ''JS''"
  by (simp_all add: disk_def paths_distinct)

lemma disk_with_simps:
  "disk_with html asset HTML_PATH = Some html" "disk_with html asset MERMAID_JS = Some asset"
  by (simp_all add: disk_with_def paths_distinct)

lemma disk_read_js: "read_text (disk html) MERMAID_JS = Inr ''JS''"
  by (simp add: read_text_def disk_simps)

lemma disk_read_html: "CHR 0x0D \<notin> set html \<Longrightarrow> read_text (disk html) HTML_PATH = Inr html"
  by (simp add: read_text_def disk_simps universal_newlines_no_cr)

lemma disk_one_tag:
  "read_text (disk one_tag) HTML_PATH = Inr one_tag" "read_text (disk one_tag) MERMAID_JS = Inr ''JS''"
  by (simp_all add: disk_read_html disk_read_js one_tag_def)

lemma disk_two_tags:
  "read_text (disk two_tags) HTML_PATH = Inr two_tags" "read_text (disk two_tags) MERMAID_JS = Inr ''JS''"
  by (simp_all add: disk_read_html disk_read_js two_tags_def)

lemma disk_two_diagrams:
  "read_text (disk two_diagrams) HTML_PATH = Inr two_diagrams"
  "read_text (disk two_diagrams) MERMAID_JS = Inr ''JS''"
  by (simp_all add: disk_read_html disk_read_js two_diagrams_def)

lemma disk_three_diagrams:
  "read_text (disk three_diagrams) HTML_PATH = Inr three_diagrams"
  "read_text (disk three_diagrams) MERMAID_JS = Inr ''JS''"
  by (simp_all add: disk_read_html disk_read_js three_diagrams_def)

lemma read_crlf_asset: "universal_newlines crlf_asset = ''a\<newline>b''"
  by (simp add: crlf_asset_def)

lemma read_crlf_document: "universal_newlines crlf_document = ''x\<newline>y\<newline>z''"
  by (simp add: crlf_document_def)

lemma read_two_tags_crlf:
  "universal_newlines two_tags_crlf =
     [] @ cdn_tag '' '' ''10'' @ ''<p/>\<newline>'' @ cdn_tag ''\<newline>'' ''11'' @ []"
  by (simp add: two_tags_crlf_def cdn_tag_def cdn_open_def)

lemma one_tag_eq: "one_tag = ''<head>'' @ cdn_tag '' '' ''10'' @ ''</head>''"
  by (simp add: one_tag_def cdn_tag_def cdn_open_def)

lemma two_tags_eq: "two_tags = [] @ cdn_tag '' '' ''10'' @ ''<p/>'' @ cdn_tag '' '' ''11'' @ []"
  by (simp add: two_tags_def cdn_tag_def cdn_open_def)

lemma spaces_blank: "spaces '' ''"
  by (simp add: spaces_def isspace_def)

lemma no_tag_Nil: "\<not> has_cdn_tag []"
  by (simp add: has_cdn_tag_iff cdn_script_re_def cdn_open_re_def lit_Cons)

lemma no_tag_plain: "\<not> has_cdn_tag ''<html><body>hi</body></html>''"
proof
  assume "has_cdn_tag ''<html><body>hi</body></html>''"
  then obtain a w v b where "''<html><body>hi</body></html>'' = a @ cdn_tag w v @ b"
    unfolding has_cdn_tag_def by blast
  then have "CHR ''@'' \<in> set ''<html><body>hi</body></html>''"
    by (simp only: cdn_tag_def cdn_open_def) simp
  then show False by simp
qed

lemma no_open_eval: "\<not> has_cdn_open ''<head>''" "\<not> has_cdn_open ''</head>''" "\<not> has_cdn_open ''JS''"
  by (simp_all add: has_cdn_open_iff cdn_open_re_def lit_Cons no_caps_def)

section \<open>File names, the job of one diagram and the batch\<close>

lemma str_nat_small: "n < 10 \<Longrightarrow> str_nat n = [''0123456789'' ! n]"
  by (simp add: str_nat.simps)

lemma str_nat_large: "10 \<le> n \<Longrightarrow> str_nat n = str_nat (n div 10) @ [''0123456789'' ! (n mod 10)]"
  by (subst str_nat.simps) simp

lemma length_str_nat_pos: "0 < length (str_nat n)"
  by (cases "n < 10") (simp_all add: str_nat_small str_nat_large)

lemma length_str_nat_large: "10 \<le> n \<Longrightarrow> 2 \<le> length (str_nat n)"
proof -
  assume "10 \<le> n"
  then have "length (str_nat n) = length (str_nat (n div 10)) + 1" by (simp add: str_nat_large)
  with length_str_nat_pos[of "n div 10"] show ?thesis by linarith
qed

lemma fmt_02d_two_digits: "fmt_02d n = two_digits n"
proof (cases "n < 10")
  case True
  then show ?thesis by (simp add: fmt_02d_def two_digits_def str_nat_small)
next
  case False
  then have "2 \<le> length (str_nat n)" by (simp add: length_str_nat_large)
  with False show ?thesis by (simp add: fmt_02d_def two_digits_def)
qed

lemma out_name_eq:
  "out_name labels i =
     two_digits (i + 1) @ ''_'' @
     (if i < length labels then labels ! i else ''diagram_'' @ str_nat (i + 1)) @ ''.png''"
  by (simp add: out_name_def label_for_def fmt_02d_two_digits)

lemma render_job_cases:
  "render_job br js labels i code files =
    (let html = build_single_diagram_html code js;
         tmp = (SCRIPT_DIR, tmp_name i);
         pg = load br tmp html;
         files1 = files(tmp \<mapsto> html)
     in if \<not> nav_ok pg then (files1, Inl (TimeoutError ''goto''))
        else if \<not> list_ex diagram_ready (polls pg)
        then (files1, Inl (TimeoutError ''wait_for_function''))
        else case (case query_selector_mermaid_svg (settled pg) of
                     None \<Rightarrow> query_selector_mermaid (settled pg)
                   | Some e \<Rightarrow> Some e) of
               None \<Rightarrow> (files1, Inl AttributeError)
             | Some el \<Rightarrow>
                 (case capture el of
                    None \<Rightarrow> (files1, Inl CaptureError)
                  | Some png \<Rightarrow>
                      ((files1((IMG_DIR, out_name labels i) \<mapsto> png))(tmp := None), Inr ())))"
  by (simp add: render_job_def Let_def goto_def write_text_def wait_for_function_def
      screenshot_def unlink_def split: option.splits)

lemma render_job_failure:
  assumes "snd (render_job br js labels i code files) = Inl e"
  shows "fst (render_job br js labels i code files)
         = files((SCRIPT_DIR, tmp_name i) \<mapsto> build_single_diagram_html code js)"
  using assms unfolding render_job_cases by (simp add: Let_def split: if_splits option.splits)

lemma render_job_success:
  assumes "snd (render_job br js labels i code files) = Inr u"
  shows "\<exists>png. fst (render_job br js labels i code files)
         = (files((IMG_DIR, out_name labels i) \<mapsto> png))((SCRIPT_DIR, tmp_name i) := None)"
  using assms unfolding render_job_cases
  by (auto simp: Let_def fun_upd_twist split: if_splits option.splits)

lemma render_job_img_keeps:
  "files (IMG_DIR, n) \<noteq> None \<Longrightarrow> fst (render_job br js labels i code files) (IMG_DIR, n) \<noteq> None"
  unfolding render_job_cases by (simp add: Let_def split: option.splits)

lemma render_loop_img_keeps:
  "files (IMG_DIR, n) \<noteq> None \<Longrightarrow> fst (render_loop br js labels i blocks files) (IMG_DIR, n) \<noteq> None"
proof (induction blocks arbitrary: i files)
  case Nil
  then show ?case by simp
next
  case (Cons code blocks)
  obtain f1 r where j: "render_job br js labels i code files = (f1, r)" by (cases "render_job br js labels i code files")
  have k: "f1 (IMG_DIR, n) \<noteq> None"
    using render_job_img_keeps[of files n br js labels i code] Cons.prems j by simp
  show ?case
  proof (cases r)
    case (Inl e)
    with j k show ?thesis by simp
  next
    case (Inr u)
    have "fst (render_loop br js labels (Suc i) blocks f1) (IMG_DIR, n) \<noteq> None"
      using k by (rule Cons.IH)
    with j Inr show ?thesis by simp
  qed
qed

lemma render_loop_success:
  assumes "render_loop br js labels i blocks files = (files', Inr ())"
  shows "(\<forall>k < length blocks. files' (IMG_DIR, out_name labels (i + k)) \<noteq> None)
       \<and> (\<forall>n. (\<forall>k < length blocks. n \<noteq> out_name labels (i + k)) \<longrightarrow>
               files' (IMG_DIR, n) = files (IMG_DIR, n))"
  using assms
proof (induction blocks arbitrary: i files)
  case Nil
  then show ?case by simp
next
  case (Cons code blocks)
  obtain f1 r where j: "render_job br js labels i code files = (f1, r)"
    by (cases "render_job br js labels i code files")
  with Cons.prems have r: "r = Inr ()" by (cases r) auto
  with j Cons.prems have l: "render_loop br js labels (Suc i) blocks f1 = (files', Inr ())" by simp
  note IH = Cons.IH[OF l]
  from j r render_job_success[of br js labels i code files "()"] obtain png where
    f1: "f1 = (files((IMG_DIR, out_name labels i) \<mapsto> png))((SCRIPT_DIR, tmp_name i) := None)"
    by auto
  then have "f1 (IMG_DIR, out_name labels i) \<noteq> None" by simp
  then have "fst (render_loop br js labels (Suc i) blocks f1) (IMG_DIR, out_name labels i) \<noteq> None"
    by (rule render_loop_img_keeps)
  with l have first: "files' (IMG_DIR, out_name labels i) \<noteq> None" by simp
  have a: "files' (IMG_DIR, out_name labels (i + k)) \<noteq> None" if "k < length (code # blocks)" for k
  proof (cases k)
    case 0
    with first show ?thesis by simp
  next
    case (Suc k')
    with that IH show ?thesis by simp
  qed
  have b: "files' (IMG_DIR, n) = files (IMG_DIR, n)"
    if h: "\<forall>k < length (code # blocks). n \<noteq> out_name labels (i + k)" for n
  proof -
    from h have n0: "n \<noteq> out_name labels i" by force
    have "\<forall>k < length blocks. n \<noteq> out_name labels (Suc i + k)"
    proof (intro allI impI)
      fix k assume "k < length blocks"
      then have "Suc k < length (code # blocks)" by simp
      with h have "n \<noteq> out_name labels (i + Suc k)" by blast
      then show "n \<noteq> out_name labels (Suc i + k)" by simp
    qed
    with IH have "files' (IMG_DIR, n) = f1 (IMG_DIR, n)" by blast
    also have "\<dots> = files (IMG_DIR, n)" using f1 n0 by simp
    finally show ?thesis .
  qed
  from a b show ?case by blast
qed

lemma render_loop_abort:
  assumes "render_loop br js labels i done files = (files1, Inr ())"
    and "render_job br js labels (i + length done) code files1 = (files2, Inl e)"
  shows "render_loop br js labels i (done @ code # later) files = (files2, Inl e)"
  using assms
proof (induction "done" arbitrary: i files)
  case Nil
  then show ?case by simp
next
  case (Cons c cs)
  obtain f1 r where j: "render_job br js labels i c files = (f1, r)"
    by (cases "render_job br js labels i c files")
  with Cons.prems(1) have r: "r = Inr ()" by (cases r) auto
  with j Cons.prems(1) have l: "render_loop br js labels (Suc i) cs f1 = (files1, Inr ())" by simp
  from Cons.prems(2) have "render_job br js labels (Suc i + length cs) code files1 = (files2, Inl e)"
    by simp
  from Cons.IH[OF l this] j r show ?case by simp
qed

lemma render_main_with_eq:
  assumes "read_text files HTML_PATH = Inr html" "read_text files MERMAID_JS = Inr js" "launch_ok br"
  shows "render_main_with labels br files
         = render_loop br js labels 0 (extract_mermaid_blocks html) files"
  using assms by (simp add: render_main_with_def)

lemma render_main_with_ok:
  assumes "render_main_with labels br files = (files', Inr ())"
  shows "\<exists>html js. read_text files HTML_PATH = Inr html \<and> read_text files MERMAID_JS = Inr js
           \<and> launch_ok br"
  using assms by (auto simp: render_main_with_def split: sum.splits if_splits)

lemma pdf_main_removes_created_tmp:
  assumes "files HTML_PATH = Some html" "files MERMAID_JS = Some js"
  shows "fst (pdf_main br files) OFFLINE_TMP = None"
  using assms
  by (auto simp: pdf_main_def build_offline_html_def read_text_def write_text_def unlink_def
      split: option.splits prod.splits sum.splits)

section \<open>Runs on the example inputs\<close>

lemma out_name_spec: "out_name labels i = spec_out_name labels i"
  by (simp add: out_name_eq spec_out_name_def)

lemma blocks_two: "extract_mermaid_blocks two_diagrams = [''A'', ''B'']"
  by code_simp

lemma blocks_three: "extract_mermaid_blocks three_diagrams = [''A'', ''B'', ''C'']"
  by code_simp

lemma tmp_name_0: "tmp_name 0 = ''_tmp_diagram_0.html''"
  by (simp add: tmp_name_def str_nat_small)

lemma load_first_stuck_0: "load first_stuck_browser (SCRIPT_DIR, tmp_name 0) t = stuck_page"
  by (simp add: first_stuck_browser_def tmp_name_0)

lemma stuck_never_ready: "\<not> list_ex diagram_ready (polls stuck_page)"
  by (simp add: stuck_page_def diagram_ready_def pending_def)

lemma render_main_stuck:
  "render_main first_stuck_browser (disk two_diagrams)
   = ((disk two_diagrams)((SCRIPT_DIR, tmp_name 0) \<mapsto> build_single_diagram_html ''A'' ''JS''),
      Inl (TimeoutError ''wait_for_function''))"
proof -
  have "render_main first_stuck_browser (disk two_diagrams)
        = render_loop first_stuck_browser ''JS'' DIAGRAM_LABELS 0 [''A'', ''B''] (disk two_diagrams)"
    by (simp add: render_main_def render_main_with_eq[OF disk_two_diagrams] blocks_two
        first_stuck_browser_def)
  moreover have "render_job first_stuck_browser ''JS'' DIAGRAM_LABELS 0 ''A'' (disk two_diagrams)
        = ((disk two_diagrams)((SCRIPT_DIR, tmp_name 0) \<mapsto> build_single_diagram_html ''A'' ''JS''),
           Inl (TimeoutError ''wait_for_function''))"
    unfolding render_job_cases
    by (simp add: Let_def load_first_stuck_0 stuck_never_ready) (simp add: stuck_page_def)
  ultimately show ?thesis by simp
qed

lemma load_first_stuck_1: "load first_stuck_browser (SCRIPT_DIR, tmp_name 1) t = good_page"
  by (simp add: first_stuck_browser_def tmp_name_def str_nat_small)

lemma good_page_job:
  assumes "load br (SCRIPT_DIR, tmp_name i) (build_single_diagram_html code js) = good_page"
  shows "render_job br js labels i code files
         = ((files((IMG_DIR, out_name labels i) \<mapsto> ''SVG-PNG''))((SCRIPT_DIR, tmp_name i) := None),
            Inr ())"
  unfolding render_job_cases
  by (simp add: Let_def assms good_page_def diagram_ready_def pending_def rendered_def
      query_selector_mermaid_svg_def List.map_filter_simps fun_upd_twist)

section \<open>The claims\<close>

text \<open>
  Claim C1 says that the ephemeral document of a job is gone when the job returns, on
  every way out. The document export does this: its \<^verbatim>\<open>finally\<close> removes the file it
  created (\<open>pdf_main_removes_created_tmp\<close>), and a per-diagram job that succeeds
  removes its file (\<open>render_job_success\<close>). A per-diagram job that ends with an
  exception does not: the file stays (\<open>render_job_failure\<close>), since the
  \<^verbatim>\<open>unlink\<close> is the last statement of the loop body and no \<^verbatim>\<open>finally\<close> guards it. The
  theorem runs \<^verbatim>\<open>main\<close> of render\_diagrams.py on a document of two diagrams with a
  browser in which the first diagram never completes: the file
  \<^verbatim>\<open>_tmp_diagram_0.html\<close> was not on disk before, \<^verbatim>\<open>main\<close> ends with the timeout, and the
  file is on disk afterwards.
\<close>

theorem C1_render_tmp_left_behind:
  "disk two_diagrams (SCRIPT_DIR, ''_tmp_diagram_0.html'') = None
   \<and> snd (render_main first_stuck_browser (disk two_diagrams))
       = Inl (TimeoutError ''wait_for_function'')
   \<and> fst (render_main first_stuck_browser (disk two_diagrams)) (SCRIPT_DIR, ''_tmp_diagram_0.html'')
       = Some (build_single_diagram_html ''A'' ''JS'')"
  unfolding render_main_stuck
  by (simp add: tmp_name_0 disk_def HTML_PATH_def MERMAID_JS_def)

text \<open>
  Claim C2 says that an error in one per-diagram job is turned into a failure result
  and the remaining jobs of the batch still run. On the document of two diagrams, with
  the browser in which only the first diagram never completes, \<^verbatim>\<open>main\<close> ends with the
  timeout of the first job; the second diagram has no output file, although its job,
  run on its own, succeeds.
\<close>

theorem C2_counterexample:
  "snd (render_main first_stuck_browser (disk two_diagrams))
       = Inl (TimeoutError ''wait_for_function'')
   \<and> fst (render_main first_stuck_browser (disk two_diagrams)) (IMG_DIR, out_name DIAGRAM_LABELS 1)
       = None
   \<and> snd (render_job first_stuck_browser ''JS'' DIAGRAM_LABELS 1 ''B'' (disk two_diagrams))
       = Inr ()"
  unfolding render_main_stuck good_page_job[OF load_first_stuck_1]
  by (simp add: disk_def HTML_PATH_def MERMAID_JS_def)

text \<open>
  Claim C2, amended. When the jobs of the blocks \<open>done\<close> have succeeded and the job of
  the next block meets an error condition (the navigation times out, the completion
  predicate is true at no poll, or the page has no container left to capture), the
  batch ends there with that error, whatever blocks follow: no later job runs, and the
  image directory is as the jobs of \<open>done\<close> left it.
\<close>

theorem C2_error_aborts_batch:
  assumes "render_loop br js labels i done files = (files1, Inr ())"
    and "pg = load br (SCRIPT_DIR, tmp_name (i + length done)) (build_single_diagram_html code js)"
    and "\<not> nav_ok pg \<or> \<not> list_ex diagram_ready (polls pg) \<or> settled pg = []"
  shows "\<exists>e files2.
           e \<in> {TimeoutError ''goto'', TimeoutError ''wait_for_function'', AttributeError}
           \<and> render_loop br js labels i (done @ code # later) files = (files2, Inl e)
           \<and> (\<forall>n. files2 (IMG_DIR, n) = files1 (IMG_DIR, n))"
proof -
  let ?k = "i + length done"
  let ?f2 = "files1((SCRIPT_DIR, tmp_name ?k) \<mapsto> build_single_diagram_html code js)"
  have "\<exists>e. e \<in> {TimeoutError ''goto'', TimeoutError ''wait_for_function'', AttributeError}
          \<and> render_job br js labels ?k code files1 = (?f2, Inl e)"
    unfolding render_job_cases using assms(2,3)
    by (auto simp: Let_def query_selector_mermaid_svg_def query_selector_mermaid_def
        List.map_filter_simps)
  then obtain e where e: "e \<in> {TimeoutError ''goto'', TimeoutError ''wait_for_function'', AttributeError}"
    and j: "render_job br js labels ?k code files1 = (?f2, Inl e)" by blast
  have "\<forall>n. ?f2 (IMG_DIR, n) = files1 (IMG_DIR, n)" by simp
  with render_loop_abort[OF assms(1) j] e show ?thesis by blast
qed

text \<open>The amended claim C2 on the document of two diagrams whose first diagram never completes.\<close>

theorem C2_error_aborts_batch_witness:
  "\<exists>e files2.
     render_loop first_stuck_browser ''JS'' DIAGRAM_LABELS 0 ([] @ ''A'' # [''B'']) (disk two_diagrams)
       = (files2, Inl e)
     \<and> files2 (IMG_DIR, out_name DIAGRAM_LABELS 0) = None
     \<and> files2 (IMG_DIR, out_name DIAGRAM_LABELS 1) = None"
proof -
  have 1: "render_loop first_stuck_browser ''JS'' DIAGRAM_LABELS 0 [] (disk two_diagrams)
           = (disk two_diagrams, Inr ())" by simp
  have 2: "stuck_page = load first_stuck_browser (SCRIPT_DIR, tmp_name (0 + length ([] :: string list)))
             (build_single_diagram_html ''A'' ''JS'')"
    by (simp add: load_first_stuck_0)
  have 3: "\<not> nav_ok stuck_page \<or> \<not> list_ex diagram_ready (polls stuck_page) \<or> settled stuck_page = []"
    using stuck_never_ready by simp
  have d: "disk two_diagrams (IMG_DIR, n) = None" for n
    by (simp add: disk_def HTML_PATH_def MERMAID_JS_def)
  from C2_error_aborts_batch[OF 1 2 3, of "[''B'']"] show ?thesis
    by (auto simp: d)
qed

text \<open>
  Claim C3. A document is the text \<open>document bs tail\<close>: each block is an opening tag
  \<^verbatim>\<open><pre\<close>, whitespace, \<^verbatim>\<open>class="mermaid">\<close>, then its content, then \<^verbatim>\<open></pre>\<close>. The
  blocks are correctly delimited: the content of a block does not contain the closing
  tag \<^verbatim>\<open></pre>\<close>, and the text before, between and after the blocks contains no
  opening tag. Then extraction returns exactly one entry per block, in the order of
  the document, and the entry of a block is its content without leading and trailing
  whitespace, whatever the content is. For a document without blocks the result is the
  empty list.
\<close>

theorem C3_extract_in_order:
  assumes "\<forall>(f, w, c) \<in> set bs. \<not> has_mermaid_open f \<and> spaces w \<and> \<not> sublist ''</pre>'' c"
    and "\<not> has_mermaid_open tail"
  shows "extract_mermaid_blocks (document bs tail) = map (\<lambda>(f, w, c). strip c) bs
         \<and> length (extract_mermaid_blocks (document bs tail)) = length bs
         \<and> extract_mermaid_blocks tail = []"
proof -
  have "extract_mermaid_blocks (document bs tail) = map (\<lambda>(f, w, c). strip c) bs"
    using assms by (rule extract_document)
  moreover have "extract_mermaid_blocks tail = []"
    using extract_document[of "[]" tail] assms(2) by simp
  ultimately show ?thesis by simp
qed

text \<open>Claim C3 on a document of two blocks.\<close>

theorem C3_extract_in_order_witness:
  "\<not> has_mermaid_open ''<h1>T</h1>'' \<and> spaces '' '' \<and> \<not> sublist ''</pre>'' ''graph TD; A-->B''
   \<and> \<not> has_mermaid_open ''<p>x</p>'' \<and> spaces ''  ''
   \<and> \<not> sublist ''</pre>'' ''\<newline>  flow <b>\<newline>''
   \<and> \<not> has_mermaid_open ''</body>''
   \<and> extract_mermaid_blocks
        (document [(''<h1>T</h1>'', '' '', ''graph TD; A-->B''),
                   (''<p>x</p>'', ''  '', ''\<newline>  flow <b>\<newline>'')] ''</body>'')
       = [''graph TD; A-->B'', ''flow <b>'']"
proof -
  have h: "\<forall>(f, w, c) \<in> set [(''<h1>T</h1>'', '' '', ''graph TD; A-->B''),
                        (''<p>x</p>'', ''  '', ''\<newline>  flow <b>\<newline>'')].
      \<not> has_mermaid_open f \<and> spaces w \<and> \<not> sublist ''</pre>'' c"
    by (simp add: has_mermaid_open_iff mermaid_open_re_def lit_def no_caps_def spaces_def
        isspace_def sublist_Cons_right)
  have t: "\<not> has_mermaid_open ''</body>''"
    by (simp add: has_mermaid_open_iff mermaid_open_re_def lit_def no_caps_def)
  from C3_extract_in_order[OF h t] h t show ?thesis
    by (simp add: strip_def isspace_def)
qed

text \<open>
  Claim C4. When \<^verbatim>\<open>main\<close> of render\_diagrams.py, run with a label table, returns
  without an error, and \<open>html\<close> is the text it read from the source document, the image
  directory holds, for every position \<open>i\<close> of a diagram extracted from \<open>html\<close>, a file
  whose name is the ordinal \<open>i + 1\<close> on two digits, an underscore, and the entry \<open>i\<close> of
  the table when \<open>i\<close> is within the table and \<^verbatim>\<open>diagram_\<close> followed by the ordinal
  otherwise, with the extension \<^verbatim>\<open>.png\<close>; and no file of the image directory with
  another name has changed. The name the code computes with
  \<^verbatim>\<open>f"{i+1:02d}_{label}.png"\<close> is this name (\<open>out_name_spec\<close>).
\<close>

theorem C4_output_file_names:
  assumes "render_main_with labels br files = (files', Inr ())"
    and "read_text files HTML_PATH = Inr html"
  shows "(\<forall>i < length (extract_mermaid_blocks html).
            files' (IMG_DIR, spec_out_name labels i) \<noteq> None)
       \<and> (\<forall>n. (\<forall>i < length (extract_mermaid_blocks html). n \<noteq> spec_out_name labels i) \<longrightarrow>
               files' (IMG_DIR, n) = files (IMG_DIR, n))"
proof -
  from render_main_with_ok[OF assms(1)] assms(2) obtain js where
    js: "read_text files MERMAID_JS = Inr js" and l: "launch_ok br" by auto
  from assms(1) have "render_loop br js labels 0 (extract_mermaid_blocks html) files = (files', Inr ())"
    unfolding render_main_with_eq[OF assms(2) js l] .
  from render_loop_success[OF this] show ?thesis by (simp add: out_name_spec)
qed

text \<open>
  Claim C4 on a document of three diagrams and a table of two labels: the files are
  \<^verbatim>\<open>01_alpha.png\<close>, \<^verbatim>\<open>02_beta.png\<close> and \<^verbatim>\<open>03_diagram_3.png\<close>.
\<close>

theorem C4_output_file_names_witness:
  "snd (render_main_with [''alpha'', ''beta''] good_browser (disk three_diagrams)) = Inr ()
   \<and> fst (render_main_with [''alpha'', ''beta''] good_browser (disk three_diagrams))
       (IMG_DIR, ''01_alpha.png'') \<noteq> None
   \<and> fst (render_main_with [''alpha'', ''beta''] good_browser (disk three_diagrams))
       (IMG_DIR, ''02_beta.png'') \<noteq> None
   \<and> fst (render_main_with [''alpha'', ''beta''] good_browser (disk three_diagrams))
       (IMG_DIR, ''03_diagram_3.png'') \<noteq> None"
proof -
  let ?R = "render_main_with [''alpha'', ''beta''] good_browser (disk three_diagrams)"
  have g: "load good_browser p t = good_page" for p t by (simp add: good_browser_def)
  have "?R = render_loop good_browser ''JS'' [''alpha'', ''beta''] 0 [''A'', ''B'', ''C''] (disk three_diagrams)"
    by (simp add: render_main_with_eq[OF disk_three_diagrams] blocks_three good_browser_def)
  then have ok: "snd ?R = Inr ()"
    by (simp add: good_page_job[OF g])
  then have r: "?R = (fst ?R, Inr ())" by (metis prod.collapse)
  from C4_output_file_names[OF r disk_three_diagrams(1)]
  have a: "\<forall>i < 3. fst ?R (IMG_DIR, spec_out_name [''alpha'', ''beta''] i) \<noteq> None"
    by (simp add: blocks_three)
  have n: "spec_out_name [''alpha'', ''beta''] 0 = ''01_alpha.png''"
    "spec_out_name [''alpha'', ''beta''] 1 = ''02_beta.png''"
    "spec_out_name [''alpha'', ''beta''] 2 = ''03_diagram_3.png''"
    by (simp_all add: spec_out_name_def two_digits_def str_nat_small)
  from a have "fst ?R (IMG_DIR, spec_out_name [''alpha'', ''beta''] 0) \<noteq> None"
    "fst ?R (IMG_DIR, spec_out_name [''alpha'', ''beta''] 1) \<noteq> None"
    "fst ?R (IMG_DIR, spec_out_name [''alpha'', ''beta''] 2) \<noteq> None"
    by simp_all
  with ok n show ?thesis by simp
qed

text \<open>
  Claim C5 says that, for every document that has the script reference of the engine,
  the output of the bundler has no such reference left and the inlined code is
  byte-identical to the asset file. With a document that has two references and an
  asset file that holds a carriage return, the text the bundler writes still has the
  second reference, and the bytes of the asset file do not occur in it: the asset is
  inlined as it was read, with the carriage return and line feed as one line feed.
\<close>

theorem C5_counterexample:
  "has_cdn_tag two_tags
   \<and> fst (build_offline_html (disk_with two_tags crlf_asset)) OFFLINE_TMP
       = Some (''<script>a\<newline>b</script><p/>'' @ cdn_tag '' '' ''11'')
   \<and> has_cdn_tag (''<script>a\<newline>b</script><p/>'' @ cdn_tag '' '' ''11'')
   \<and> \<not> sublist crlf_asset (''<script>a\<newline>b</script><p/>'' @ cdn_tag '' '' ''11'')"
proof -
  have nq: "CHR 0x22 \<notin> set ''10''" "CHR 0x22 \<notin> set ''11''" by simp_all
  have 1: "has_cdn_tag two_tags"
    unfolding has_cdn_tag_def using two_tags_eq spaces_blank nq(1) by blast
  have r: "read_text (disk_with two_tags crlf_asset) HTML_PATH = Inr two_tags"
    "read_text (disk_with two_tags crlf_asset) MERMAID_JS = Inr ''a\<newline>b''"
    by (simp_all add: read_text_def disk_with_simps read_crlf_asset universal_newlines_no_cr
        two_tags_def)
  have "offline_text two_tags ''a\<newline>b'' = ''<script>a\<newline>b</script><p/>'' @ cdn_tag '' '' ''11''"
    unfolding two_tags_eq
    using offline_text_first_tag[OF no_tag_Nil spaces_blank nq(1),
        of "''<p/>'' @ cdn_tag '' '' ''11'' @ []" "''a\<newline>b''"]
    by simp
  then have 2: "fst (build_offline_html (disk_with two_tags crlf_asset)) OFFLINE_TMP
       = Some (''<script>a\<newline>b</script><p/>'' @ cdn_tag '' '' ''11'')"
    by (simp add: build_offline_html_eq[OF r])
  have 3: "has_cdn_tag (''<script>a\<newline>b</script><p/>'' @ cdn_tag '' '' ''11'')"
    unfolding has_cdn_tag_def using spaces_blank nq(2)
    by (metis append_Nil2)
  have 4: "\<not> sublist crlf_asset (''<script>a\<newline>b</script><p/>'' @ cdn_tag '' '' ''11'')"
  proof
    assume "sublist crlf_asset (''<script>a\<newline>b</script><p/>'' @ cdn_tag '' '' ''11'')"
    then have "set crlf_asset \<subseteq> set (''<script>a\<newline>b</script><p/>'' @ cdn_tag '' '' ''11'')"
      by (rule set_mono_sublist)
    moreover have "CHR 0x0D \<in> set crlf_asset" by (simp add: crlf_asset_def)
    ultimately have "CHR 0x0D \<in> set (''<script>a\<newline>b</script><p/>'' @ cdn_tag '' '' ''11'')"
      by blast
    then show False by (simp add: cdn_tag_def cdn_open_def)
  qed
  from 1 2 3 4 show ?thesis by blast
qed

text \<open>
  Claim C5, amended. Let the text read from the document have the script reference
  exactly once (the text before it and the text after it contain no opening of such a
  tag), and let the text read from the asset file contain no such opening either. Then
  the bundler writes the document with the reference replaced by \<^verbatim>\<open><script>\<close>, the text
  of the asset as it was read, and \<^verbatim>\<open></script>\<close>; the text it writes contains no script
  reference of the engine; and the text of the asset as it was read is the content of
  the asset file with every carriage return and line feed pair and every other carriage
  return as one line feed, which is the content of the file itself when the file holds
  no carriage return.
\<close>

theorem C5_single_reference_inlined:
  assumes "spaces w" "CHR 0x22 \<notin> set v"
    and "\<not> has_cdn_open pre" "\<not> has_cdn_open post"
    and "\<not> has_cdn_open (universal_newlines asset)"
    and "read_text files HTML_PATH = Inr (pre @ cdn_tag w v @ post)"
    and "files MERMAID_JS = Some asset"
  shows "build_offline_html files =
           (files(OFFLINE_TMP \<mapsto>
              pre @ ''<script>'' @ universal_newlines asset @ ''</script>'' @ post),
            Inr OFFLINE_TMP)
         \<and> \<not> has_cdn_tag (pre @ ''<script>'' @ universal_newlines asset @ ''</script>'' @ post)
         \<and> (CHR 0x0D \<notin> set asset \<longrightarrow> universal_newlines asset = asset)"
proof -
  have rj: "read_text files MERMAID_JS = Inr (universal_newlines asset)"
    using assms(7) by (simp add: read_text_def)
  have "\<not> has_cdn_tag pre" using assms(3) has_cdn_tag_open by blast
  from offline_text_first_tag[OF this assms(1,2), of post "universal_newlines asset"]
  have "build_offline_html files =
           (files(OFFLINE_TMP \<mapsto>
              pre @ ''<script>'' @ universal_newlines asset @ ''</script>'' @ post),
            Inr OFFLINE_TMP)"
    unfolding build_offline_html_eq[OF assms(6) rj] by simp
  moreover have "\<not> has_cdn_tag (pre @ ''<script>'' @ universal_newlines asset @ ''</script>'' @ post)"
    using no_open_inlined[OF assms(3,5,4)] has_cdn_tag_open by blast
  ultimately show ?thesis by (simp add: universal_newlines_no_cr)
qed

text \<open>
  The amended claim C5 on a document with one reference, with the asset file that holds
  a carriage return and with an asset file that holds none.
\<close>

theorem C5_single_reference_inlined_witness:
  "build_offline_html (disk_with one_tag crlf_asset) =
     ((disk_with one_tag crlf_asset)(OFFLINE_TMP \<mapsto> ''<head><script>a\<newline>b</script></head>''),
      Inr OFFLINE_TMP)
   \<and> \<not> has_cdn_tag ''<head><script>a\<newline>b</script></head>''
   \<and> build_offline_html (disk one_tag) =
     ((disk one_tag)(OFFLINE_TMP \<mapsto> ''<head><script>JS</script></head>''), Inr OFFLINE_TMP)
   \<and> \<not> has_cdn_tag ''<head><script>JS</script></head>''"
proof -
  have nq: "CHR 0x22 \<notin> set ''10''" by simp
  have "read_text (disk_with one_tag crlf_asset) HTML_PATH = Inr one_tag"
    by (simp add: read_text_def disk_with_simps universal_newlines_no_cr one_tag_def)
  then have h1: "read_text (disk_with one_tag crlf_asset) HTML_PATH
            = Inr (''<head>'' @ cdn_tag '' '' ''10'' @ ''</head>'')"
    using one_tag_eq by metis
  have a1: "\<not> has_cdn_open (universal_newlines crlf_asset)"
    unfolding read_crlf_asset
    by (simp add: has_cdn_open_iff cdn_open_re_def lit_Cons no_caps_def)
  have h2: "read_text (disk one_tag) HTML_PATH = Inr (''<head>'' @ cdn_tag '' '' ''10'' @ ''</head>'')"
    using disk_one_tag(1) one_tag_eq by metis
  have a2: "\<not> has_cdn_open (universal_newlines ''JS'')"
    using no_open_eval(3) by (simp add: universal_newlines_no_cr)
  from C5_single_reference_inlined[OF spaces_blank nq no_open_eval(1,2) a1 h1 disk_with_simps(2)]
    C5_single_reference_inlined[OF spaces_blank nq no_open_eval(1,2) a2 h2 disk_simps(2)]
  show ?thesis by (simp add: read_crlf_asset universal_newlines_no_cr)
qed

text \<open>
  Claim C6. Let \<open>html\<close> be the text the bundler read from the document. When \<open>html\<close>
  contains no script tag of the engine (no text \<^verbatim>\<open><script\<close>, whitespace,
  \<^verbatim>\<open>src="https://cdn.jsdelivr.net/npm/mermaid@\<close>, characters other than the double quote,
  \<^verbatim>\<open>"></script>\<close>), the bundler does not fail: it leaves the text as it is, and the text
  it writes to the ephemeral file is \<open>html\<close>.
\<close>

theorem C6_no_reference_unchanged:
  assumes "read_text files HTML_PATH = Inr html" "read_text files MERMAID_JS = Inr js"
    and "\<not> has_cdn_tag html"
  shows "offline_text html js = html
         \<and> build_offline_html files = (files(OFFLINE_TMP \<mapsto> html), Inr OFFLINE_TMP)"
  using build_offline_html_eq[OF assms(1,2)] offline_text_no_tag[OF assms(3)] by simp

text \<open>
  Claim C6 on a document without any script tag whose file holds carriage returns: the
  text read, and written, has line feeds in their place.
\<close>

theorem C6_no_reference_unchanged_witness:
  "\<not> has_cdn_tag ''x\<newline>y\<newline>z''
   \<and> read_text (disk crlf_document) HTML_PATH = Inr ''x\<newline>y\<newline>z''
   \<and> build_offline_html (disk crlf_document)
       = ((disk crlf_document)(OFFLINE_TMP \<mapsto> ''x\<newline>y\<newline>z''), Inr OFFLINE_TMP)"
proof -
  have r: "read_text (disk crlf_document) HTML_PATH = Inr ''x\<newline>y\<newline>z''"
    by (simp add: read_text_def disk_simps read_crlf_document)
  have n: "\<not> has_cdn_tag ''x\<newline>y\<newline>z''"
  proof
    assume "has_cdn_tag ''x\<newline>y\<newline>z''"
    then obtain a w v b where "''x\<newline>y\<newline>z'' = a @ cdn_tag w v @ b"
      unfolding has_cdn_tag_def by blast
    then have "CHR ''@'' \<in> set ''x\<newline>y\<newline>z''"
      by (simp only: cdn_tag_def cdn_open_def) simp
    then show False by simp
  qed
  from C6_no_reference_unchanged[OF r disk_read_js n] r n show ?thesis by simp
qed

text \<open>
  Claim C7. When the completion predicate of a per-diagram job is true at no poll
  within the timeout, the job ends with a timeout error and no file of the image
  directory is created or changed by it; in particular nothing is written at the
  output path of the diagram.
\<close>

theorem C7_timeout_no_output:
  assumes "\<not> list_ex diagram_ready
             (polls (load br (SCRIPT_DIR, tmp_name i) (build_single_diagram_html code js)))"
  shows "(\<exists>what. snd (render_job br js labels i code files) = Inl (TimeoutError what))
         \<and> (\<forall>n. fst (render_job br js labels i code files) (IMG_DIR, n) = files (IMG_DIR, n))"
  unfolding render_job_cases using assms by (simp add: Let_def)

text \<open>Claim C7 on the first job of the document of two diagrams.\<close>

theorem C7_timeout_no_output_witness:
  "snd (render_job first_stuck_browser ''JS'' DIAGRAM_LABELS 0 ''A'' (disk two_diagrams))
     = Inl (TimeoutError ''wait_for_function'')
   \<and> fst (render_job first_stuck_browser ''JS'' DIAGRAM_LABELS 0 ''A'' (disk two_diagrams))
       (IMG_DIR, out_name DIAGRAM_LABELS 0) = None"
proof -
  have h: "\<not> list_ex diagram_ready
             (polls (load first_stuck_browser (SCRIPT_DIR, tmp_name 0) (build_single_diagram_html ''A'' ''JS'')))"
    by (simp add: load_first_stuck_0 stuck_never_ready)
  have "snd (render_job first_stuck_browser ''JS'' DIAGRAM_LABELS 0 ''A'' (disk two_diagrams))
     = Inl (TimeoutError ''wait_for_function'')"
    unfolding render_job_cases
    by (simp add: Let_def load_first_stuck_0 stuck_never_ready) (simp add: stuck_page_def)
  with C7_timeout_no_output[OF h, of DIAGRAM_LABELS "disk two_diagrams"] show ?thesis
    by (simp add: disk_def HTML_PATH_def MERMAID_JS_def)
qed

text \<open>
  Claim C8. The bundler leaves the source document as it is: after
  \<^verbatim>\<open>build_offline_html\<close> the file at \<open>HTML_PATH\<close> has the content it had, and so has
  every file other than the ephemeral one, the only path it writes.
\<close>

theorem C8_source_not_modified:
  "fst (build_offline_html files) HTML_PATH = files HTML_PATH
   \<and> (\<forall>p. p \<noteq> OFFLINE_TMP \<longrightarrow> fst (build_offline_html files) p = files p)"
  by (auto simp: build_offline_html_def read_text_def write_text_def paths_distinct
      split: option.splits)

text \<open>Claim C8 on a disk whose document has one reference.\<close>

theorem C8_source_not_modified_witness:
  "fst (build_offline_html (disk one_tag)) HTML_PATH = Some one_tag
   \<and> fst (build_offline_html (disk one_tag)) MERMAID_JS = Some ''JS''
   \<and> fst (build_offline_html (disk one_tag)) OFFLINE_TMP = Some ''<head><script>JS</script></head>''"
proof -
  have "offline_text one_tag ''JS'' = ''<head><script>JS</script></head>''"
    unfolding one_tag_eq
    using offline_text_first_tag[of "''<head>''" "'' ''" "''10''" "''</head>''" "''JS''"]
    by (simp add: spaces_blank has_cdn_tag_iff cdn_script_re_def cdn_open_re_def lit_Cons)
  then have "fst (build_offline_html (disk one_tag)) OFFLINE_TMP = Some ''<head><script>JS</script></head>''"
    by (simp add: build_offline_html_eq[OF disk_one_tag])
  moreover have "fst (build_offline_html (disk one_tag)) HTML_PATH = disk one_tag HTML_PATH"
    using C8_source_not_modified[of "disk one_tag"] by blast
  moreover have "fst (build_offline_html (disk one_tag)) MERMAID_JS = disk one_tag MERMAID_JS"
    using C8_source_not_modified[of "disk one_tag"] paths_distinct(2) by blast
  ultimately show ?thesis by (simp add: disk_simps)
qed

text \<open>
  Claim C9. Let the text the bundler read from the document have a script tag of the
  engine, no such tag in the text before it, and a second such tag later. Then the
  bundler replaces the first by the inlined asset and writes everything after it as it
  is in that text, the second tag included.
\<close>

theorem C9_only_first_replaced:
  assumes "spaces w1" "CHR 0x22 \<notin> set v1" "spaces w2" "CHR 0x22 \<notin> set v2"
    and "\<not> has_cdn_tag pre"
    and "read_text files HTML_PATH = Inr (pre @ cdn_tag w1 v1 @ mid @ cdn_tag w2 v2 @ post)"
    and "read_text files MERMAID_JS = Inr js"
  shows "build_offline_html files =
           (files(OFFLINE_TMP \<mapsto> pre @ ''<script>'' @ js @ ''</script>'' @ mid @ cdn_tag w2 v2 @ post),
            Inr OFFLINE_TMP)"
  unfolding build_offline_html_eq[OF assms(6,7)]
  using offline_text_first_tag[OF assms(5,1,2), of "mid @ cdn_tag w2 v2 @ post" js] by simp

text \<open>
  Claim C9 on a document with two references whose file holds carriage returns, one of
  them inside the second tag: the second tag is written as it was read.
\<close>

theorem C9_only_first_replaced_witness:
  "read_text (disk two_tags_crlf) HTML_PATH =
     Inr (''<script src=\"https://cdn.jsdelivr.net/npm/mermaid@10\"></script><p/>\<newline>'' @
          ''<script\<newline>src=\"https://cdn.jsdelivr.net/npm/mermaid@11\"></script>'')
   \<and> build_offline_html (disk two_tags_crlf) =
     ((disk two_tags_crlf)(OFFLINE_TMP \<mapsto>
        ''<script>JS</script><p/>\<newline>'' @
        ''<script\<newline>src=\"https://cdn.jsdelivr.net/npm/mermaid@11\"></script>''),
      Inr OFFLINE_TMP)"
proof -
  have "read_text (disk two_tags_crlf) HTML_PATH = Inr (universal_newlines two_tags_crlf)"
    by (simp add: read_text_def disk_simps)
  then have h: "read_text (disk two_tags_crlf) HTML_PATH
           = Inr ([] @ cdn_tag '' '' ''10'' @ ''<p/>\<newline>'' @ cdn_tag ''\<newline>'' ''11'' @ [])"
    by (simp only: read_two_tags_crlf)
  have nq: "CHR 0x22 \<notin> set ''10''" "CHR 0x22 \<notin> set ''11''" by simp_all
  have sp: "spaces ''\<newline>''" by (simp add: spaces_def isspace_def)
  from C9_only_first_replaced[OF spaces_blank nq(1) sp nq(2) no_tag_Nil h disk_read_js] h
  show ?thesis by (simp add: cdn_tag_def cdn_open_def)
qed

text \<open>
  Claim C10. The readiness predicate of the document export is false on a page
  without diagram containers. Let \<open>html\<close> and \<open>js\<close> be the texts read from the document
  and the asset. When the page of the offline document has no container at any poll,
  the export does not print: \<^verbatim>\<open>main\<close> of generate\_pdf.py ends with the timeout of
  \<^verbatim>\<open>wait_for_function\<close>, the file at \<open>PDF_PATH\<close> is as it was, and the only change on disk
  is that the ephemeral file is absent.
\<close>

theorem C10_no_container_times_out:
  assumes "read_text files HTML_PATH = Inr html" "read_text files MERMAID_JS = Inr js"
    and "launch_ok br"
    and "nav_ok (load br OFFLINE_TMP (offline_text html js))"
    and "\<forall>d \<in> set (polls (load br OFFLINE_TMP (offline_text html js))). d = []"
  shows "\<not> document_ready []
         \<and> pdf_main br files = (files(OFFLINE_TMP := None), Inl (TimeoutError ''wait_for_function''))
         \<and> fst (pdf_main br files) PDF_PATH = files PDF_PATH"
proof -
  let ?pg = "load br OFFLINE_TMP (offline_text html js)"
  have nr: "\<not> document_ready []" by (simp add: document_ready_def)
  have "\<not> list_ex document_ready (polls ?pg)"
    using assms(5) nr by (auto simp: list_ex_iff)
  then have "pdf_try br OFFLINE_TMP (files(OFFLINE_TMP \<mapsto> offline_text html js))
             = (files(OFFLINE_TMP \<mapsto> offline_text html js), Inl (TimeoutError ''wait_for_function''))"
    using assms(3,4) by (simp add: pdf_try_def goto_def wait_for_function_def Let_def)
  then have "pdf_main br files = (files(OFFLINE_TMP := None), Inl (TimeoutError ''wait_for_function''))"
    by (simp add: pdf_main_def build_offline_html_eq[OF assms(1,2)] unlink_def)
  with nr show ?thesis by (simp add: paths_distinct)
qed

text \<open>Claim C10 on a browser whose pages have no container.\<close>

theorem C10_no_container_times_out_witness:
  "pdf_main empty_browser (disk one_tag)
     = ((disk one_tag)(OFFLINE_TMP := None), Inl (TimeoutError ''wait_for_function''))
   \<and> fst (pdf_main empty_browser (disk one_tag)) PDF_PATH = None"
proof -
  have l: "launch_ok empty_browser" by (simp add: empty_browser_def)
  have n: "nav_ok (load empty_browser OFFLINE_TMP (offline_text one_tag ''JS''))"
    by (simp add: empty_browser_def empty_page_def)
  have p: "\<forall>d \<in> set (polls (load empty_browser OFFLINE_TMP (offline_text one_tag ''JS''))). d = []"
    by (simp add: empty_browser_def empty_page_def)
  have d: "disk one_tag PDF_PATH = None"
    by (simp add: disk_def HTML_PATH_def MERMAID_JS_def PDF_PATH_def)
  from C10_no_container_times_out[OF disk_one_tag l n p] d show ?thesis by simp
qed

end
